theory Spec2Isabelle
  imports Main
begin

section \<open>The local-storage repository of the wallet extension\<close>

text \<open>
  A shallow embedding of \<^verbatim>\<open>src/persistence/localRepository.ts\<close>. The class
  \<^verbatim>\<open>LocalRepository\<close> keeps four logical collections (buckets) inside the browser's
  \<^verbatim>\<open>window.localStorage\<close>, a flat store from strings to strings. Every method of the
  class becomes a function that takes the store and, when it writes, returns the new store.
  A rejected promise is a value \<open>Inl e\<close>, a resolved one is \<open>Inr v\<close>.

  The methods are \<^verbatim>\<open>async\<close>, but the store itself is synchronous, and every
  continuation of a method is queued before the continuation of the caller that awaits
  it; the model therefore runs one call after the other, in the order the caller awaits
  them. Calls that are started together without awaiting are outside the model.
\<close>

subsection \<open>The flat store and the errors\<close>

type_synonym Storage = "string \<rightharpoonup> string"

datatype ErrorCode = NotFound

text \<open>
  \<open>RepositoryError\<close> is the error \<^verbatim>\<open>getValue\<close> throws; \<open>SyntaxError\<close> is what
  \<^verbatim>\<open>JSON.parse\<close> throws on a string that is not JSON; \<open>TypeError\<close> is what reading
  a property of \<^verbatim>\<open>null\<close> throws.
\<close>

datatype error = RepositoryError ErrorCode | SyntaxError | TypeError

definition addressBucketTag :: string where
  "addressBucketTag = ''addressBucket''"

definition utxoBucketTag :: string where
  "utxoBucketTag = ''utxoBucket''"

definition contractBucketTag :: string where
  "contractBucketTag = ''contractBucket''"

definition keyPairBucketTag :: string where
  "keyPairBucketTag = ''keyPairBucket''"

definition locationKey :: string where
  "locationKey = ''locationKey''"

subsection \<open>The string and array primitives of the host language\<close>

text \<open>
  \<^verbatim>\<open>res.split(',')\<close>: the pieces between the commas; a string with \<open>n\<close> commas has
  \<open>n + 1\<close> pieces, and the empty string has the one piece \<open>''''\<close>.
\<close>

fun split_comma :: "string \<Rightarrow> string list" where
  "split_comma [] = [[]]"
| "split_comma (c # cs) =
     (if c = CHR '','' then [] # split_comma cs
      else (case split_comma cs of
              [] \<Rightarrow> [[c]]
            | w # ws \<Rightarrow> (c # w) # ws))"

text \<open>\<^verbatim>\<open>keyList.join(',')\<close>; the empty array joins to the empty string.\<close>

fun join_comma :: "string list \<Rightarrow> string" where
  "join_comma [] = []"
| "join_comma [x] = x"
| "join_comma (x # y # ys) = x @ CHR '','' # join_comma (y # ys)"

text \<open>\<^verbatim>\<open>keyList.indexOf(key)\<close>: the first position of the key, or \<open>-1\<close>.\<close>

fun indexOf :: "'a list \<Rightarrow> 'a \<Rightarrow> int" where
  "indexOf [] k = - 1"
| "indexOf (x # xs) k =
     (if x = k then 0
      else (let i = indexOf xs k in if i = - 1 then - 1 else i + 1))"

text \<open>\<^verbatim>\<open>keyList.splice(index, 1)\<close> for an index that is in range: the array without
  the element at that index.\<close>

definition splice1 :: "'a list \<Rightarrow> int \<Rightarrow> 'a list" where
  "splice1 xs i = take (nat i) xs @ drop (Suc (nat i)) xs"

subsection \<open>The bucket index\<close>

definition getBucketKeys :: "Storage \<Rightarrow> string \<Rightarrow> string list" where
  "getBucketKeys db bucketTag =
     (case db bucketTag of
        Some res \<Rightarrow> split_comma res
      | None \<Rightarrow> [])"

definition upsertInBucket :: "string \<Rightarrow> string \<Rightarrow> string \<Rightarrow> Storage \<Rightarrow> Storage" where
  "upsertInBucket key val bucketTag db =
     (let keyList = getBucketKeys db bucketTag;
          index = indexOf keyList key;
          db1 = (if index = - 1
                 then db(bucketTag \<mapsto> join_comma (keyList @ [key]))
                 else db)
      in db1(key \<mapsto> val))"

definition deleteInBucket :: "string \<Rightarrow> string \<Rightarrow> Storage \<Rightarrow> Storage" where
  "deleteInBucket key bucketTag db =
     (let keyList = getBucketKeys db bucketTag;
          index = indexOf keyList key
      in if index = - 1 then db
         else (let keyList' = splice1 keyList index;
                   db1 = (if length keyList' = 0
                          then db(bucketTag := None)
                          else db(bucketTag \<mapsto> join_comma keyList'))
               in db1(key := None)))"

definition getValue :: "Storage \<Rightarrow> string \<Rightarrow> error + string" where
  "getValue db key =
     (case db key of
        Some res \<Rightarrow> Inr res
      | None \<Rightarrow> Inl (RepositoryError NotFound))"

definition hasContract :: "Storage \<Rightarrow> string \<Rightarrow> bool" where
  "hasContract db contractId = (db contractId \<noteq> None)"

definition saveLocation :: "string \<Rightarrow> Storage \<Rightarrow> Storage" where
  "saveLocation location db = db(locationKey \<mapsto> location)"

definition getLocation :: "Storage \<Rightarrow> string option" where
  "getLocation db = db locationKey"

subsection \<open>Plain objects of the host language\<close>

text \<open>
  \<^verbatim>\<open>getAllKeyValuesInBucket\<close> collects the entries of a bucket in an object literal
  \<^verbatim>\<open>{}\<close> and the callers walk it with \<^verbatim>\<open>for ... in\<close>. An object is modelled by
  its own properties in the order of their creation, and by whether its prototype has been
  set to \<^verbatim>\<open>null\<close>. A property value is a string of the store or \<^verbatim>\<open>null\<close>
  (\<open>None\<close>, what \<^verbatim>\<open>getItem\<close> returns for an absent key).
\<close>

record js_object =
  properties :: "(string \<times> string option) list"
  proto_null :: bool

definition empty_object :: js_object where
  "empty_object = \<lparr>properties = [], proto_null = False\<rparr>"

text \<open>
  \<^verbatim>\<open>ret[key] = v\<close>. An own property is overwritten in place; a new key is appended.
  The key \<^verbatim>\<open>__proto__\<close> is the accessor inherited from \<^verbatim>\<open>Object.prototype\<close>:
  its setter ignores a string and, given \<^verbatim>\<open>null\<close>, removes the prototype (after which
  the key is an ordinary one).
\<close>

definition set_property :: "js_object \<Rightarrow> string \<Rightarrow> string option \<Rightarrow> js_object" where
  "set_property obj key v =
     (if key \<in> set (map fst (properties obj))
      then obj\<lparr>properties :=
             map (\<lambda>(k, w). if k = key then (k, v) else (k, w)) (properties obj)\<rparr>
      else if key = ''__proto__'' \<and> \<not> proto_null obj
      then (case v of None \<Rightarrow> obj\<lparr>proto_null := True\<rparr> | Some _ \<Rightarrow> obj)
      else obj\<lparr>properties := properties obj @ [(key, v)]\<rparr>)"

definition get_property :: "js_object \<Rightarrow> string \<Rightarrow> string option" where
  "get_property obj key =
     (case map_of (properties obj) key of None \<Rightarrow> None | Some v \<Rightarrow> v)"

definition decimal_value :: "string \<Rightarrow> nat" where
  "decimal_value k = foldl (\<lambda>n c. 10 * n + (of_char c - 48)) 0 k"

text \<open>
  An array index is the canonical decimal numeral of an integer below \<open>2^32 - 1\<close>:
  digits only, no leading zero.
\<close>

definition is_array_index :: "string \<Rightarrow> bool" where
  "is_array_index k \<longleftrightarrow>
     k \<noteq> [] \<and> list_all (\<lambda>c. c \<in> set ''0123456789'') k \<and>
     (k = ''0'' \<or> hd k \<noteq> CHR ''0'') \<and> decimal_value k < 2 ^ 32 - 1"

text \<open>
  \<^verbatim>\<open>for (const key in obj)\<close>: the own keys that are array indices in ascending
  numeric order, then the other keys in the order of their creation.
\<close>

definition for_in_keys :: "js_object \<Rightarrow> string list" where
  "for_in_keys obj =
     (let ks = map fst (properties obj)
      in sort_key decimal_value (filter is_array_index ks) @
         filter (\<lambda>k. \<not> is_array_index k) ks)"

definition getAllKeyValuesInBucket :: "Storage \<Rightarrow> string \<Rightarrow> js_object" where
  "getAllKeyValuesInBucket db bucketTag =
     foldl (\<lambda>ret key. set_property ret key (db key)) empty_object
       (getBucketKeys db bucketTag)"

definition getAllValuesInBucket :: "Storage \<Rightarrow> string \<Rightarrow> string option list" where
  "getAllValuesInBucket db bucketTag =
     (let keyValues = getAllKeyValuesInBucket db bucketTag
      in map (get_property keyValues) (for_in_keys keyValues))"

definition getAllKeysInBucket :: "Storage \<Rightarrow> string \<Rightarrow> string list" where
  "getAllKeysInBucket db bucketTag =
     for_in_keys (getAllKeyValuesInBucket db bucketTag)"

subsection \<open>Records, the value codec and the library functions\<close>

text \<open>
  Modelled from the spec: the enumeration \<^verbatim>\<open>ContractState\<close> of \<^verbatim>\<open>dlc-lib\<close> is not
  part of the sources. The spec names the states Offered, Accepted, Signed, Confirmed and
  Closed and says there are more; \<open>OtherState\<close> stands for those.
\<close>

datatype ContractState =
  Offered | Accepted | Signed | Confirmed | Closed | OtherState nat

text \<open>
  The record types \<^verbatim>\<open>Utxo\<close>, \<^verbatim>\<open>AnyContract\<close> and \<^verbatim>\<open>ContractQuery\<close> come from
  \<^verbatim>\<open>dlc-lib\<close> too. The repository reads the fields below; every other field of a record
  lives in the extension part of the record scheme. The output index \<open>vout\<close> is a
  natural number.
\<close>

record Utxo =
  txid :: string
  vout :: nat
  reserved :: bool

record AnyContract =
  state :: ContractState
  temporaryContractId :: string

record ContractQuery =
  states :: "ContractState list option"

text \<open>
  What the repository takes from its environment: \<^verbatim>\<open>getId\<close> of \<^verbatim>\<open>dlc-lib\<close>, and
  \<^verbatim>\<open>JSON.stringify\<close> and \<^verbatim>\<open>JSON.parse\<close> at the two record types. A parse that throws
  is \<open>None\<close>. The records are taken to be plain data, on which \<^verbatim>\<open>JSON.stringify\<close>
  does not throw, and a string that parses is taken to parse to a record of the type the
  source casts it to.
\<close>

record ('c, 'u) Host =
  getId :: "'c \<Rightarrow> string"
  stringifyContract :: "'c \<Rightarrow> string"
  parseContract :: "string \<Rightarrow> 'c option"
  stringifyUtxo :: "'u \<Rightarrow> string"
  parseUtxo :: "string \<Rightarrow> 'u option"

text \<open>A value read back from a bucket: \<^verbatim>\<open>null\<close> or a record.\<close>

datatype 'a nullable = Null | Rec 'a

text \<open>
  \<^verbatim>\<open>JSON.parse(x)\<close> on a property value: \<^verbatim>\<open>null\<close> is converted to the string
  \<^verbatim>\<open>"null"\<close>, which parses to \<^verbatim>\<open>null\<close>.
\<close>

definition JSON_parse :: "(string \<Rightarrow> 'a option) \<Rightarrow> string option \<Rightarrow> error + 'a nullable" where
  "JSON_parse parse x =
     (case x of
        None \<Rightarrow> Inr Null
      | Some str \<Rightarrow> (case parse str of None \<Rightarrow> Inl SyntaxError | Some r \<Rightarrow> Inr (Rec r)))"

text \<open>\<^verbatim>\<open>xs.map(f)\<close> and \<^verbatim>\<open>xs.filter(p)\<close> with a callback that may throw.\<close>

fun map_throwing :: "('a \<Rightarrow> error + 'b) \<Rightarrow> 'a list \<Rightarrow> error + 'b list" where
  "map_throwing f [] = Inr []"
| "map_throwing f (x # xs) =
     (case f x of
        Inl e \<Rightarrow> Inl e
      | Inr y \<Rightarrow> (case map_throwing f xs of Inl e \<Rightarrow> Inl e | Inr ys \<Rightarrow> Inr (y # ys)))"

fun filter_throwing :: "('a \<Rightarrow> error + bool) \<Rightarrow> 'a list \<Rightarrow> error + 'a list" where
  "filter_throwing p [] = Inr []"
| "filter_throwing p (x # xs) =
     (case p x of
        Inl e \<Rightarrow> Inl e
      | Inr b \<Rightarrow> (case filter_throwing p xs of
                   Inl e \<Rightarrow> Inl e
                 | Inr ys \<Rightarrow> Inr (if b then x # ys else ys)))"

definition getAllValuesInBucketOfType ::
  "(string \<Rightarrow> 'a option) \<Rightarrow> Storage \<Rightarrow> string \<Rightarrow> error + 'a nullable list" where
  "getAllValuesInBucketOfType parse db bucketTag =
     map_throwing (JSON_parse parse) (getAllValuesInBucket db bucketTag)"

definition getValueOfType :: "(string \<Rightarrow> 'a option) \<Rightarrow> Storage \<Rightarrow> string \<Rightarrow> error + 'a" where
  "getValueOfType parse db key =
     (case getValue db key of
        Inl e \<Rightarrow> Inl e
      | Inr str \<Rightarrow> (case parse str of None \<Rightarrow> Inl SyntaxError | Some r \<Rightarrow> Inr r))"

text \<open>
  The source starts \<^verbatim>\<open>upsertInBucket\<close> from \<^verbatim>\<open>upsertValueInBucket\<close>
  without awaiting or returning its promise. The writes of \<^verbatim>\<open>upsertInBucket\<close> run in
  the microtask that its first \<^verbatim>\<open>await\<close> queues during the call, ahead of the
  continuation of a caller that awaits the operation; the model performs them in place.
\<close>

definition upsertValueInBucket ::
  "('a \<Rightarrow> string) \<Rightarrow> string \<Rightarrow> 'a \<Rightarrow> string \<Rightarrow> Storage \<Rightarrow> Storage" where
  "upsertValueInBucket stringify key val bucketTag db =
     upsertInBucket key (stringify val) bucketTag db"

text \<open>
  \<^verbatim>\<open>vout.toString(16).padStart(2, '0')\<close> on a natural number, and the key of a
  UTXO, which \<^verbatim>\<open>getUtxoKey\<close> builds from the two fields \<^verbatim>\<open>txid\<close> and
  \<^verbatim>\<open>vout\<close> of its argument.
\<close>

definition hex_digit :: "nat \<Rightarrow> char" where
  "hex_digit d = ''0123456789abcdef'' ! d"

fun toString16 :: "nat \<Rightarrow> string" where
  "toString16 n =
     (if n < 16 then [hex_digit n]
      else toString16 (n div 16) @ [hex_digit (n mod 16)])"

definition padStart2 :: "string \<Rightarrow> string" where
  "padStart2 s = replicate (2 - length s) CHR ''0'' @ s"

definition getUtxoKey :: "string \<Rightarrow> nat \<Rightarrow> string" where
  "getUtxoKey tx n = tx @ padStart2 (toString16 n)"

subsection \<open>The repository operations\<close>

text \<open>
  An operation that returns \<^verbatim>\<open>Promise<void>\<close> yields the outcome of the promise and the
  store it leaves; an operation that only reads yields its outcome.
\<close>

definition upsertAddress :: "string \<Rightarrow> string \<Rightarrow> Storage \<Rightarrow> (error + unit) \<times> Storage" where
  "upsertAddress address privkey db = (Inr (), upsertInBucket address privkey addressBucketTag db)"

definition deleteAddress :: "string \<Rightarrow> Storage \<Rightarrow> (error + unit) \<times> Storage" where
  "deleteAddress address db = (Inr (), deleteInBucket address addressBucketTag db)"

definition getAddresses :: "Storage \<Rightarrow> error + string list" where
  "getAddresses db = Inr (getAllKeysInBucket db addressBucketTag)"

definition getPrivKeyForAddress :: "Storage \<Rightarrow> string \<Rightarrow> error + string" where
  "getPrivKeyForAddress db address = getValue db address"

definition upsertKeyPair :: "string \<Rightarrow> string \<Rightarrow> Storage \<Rightarrow> (error + unit) \<times> Storage" where
  "upsertKeyPair publicKey privkey db = (Inr (), upsertInBucket publicKey privkey keyPairBucketTag db)"

definition getPrivKeyForPubkey :: "Storage \<Rightarrow> string \<Rightarrow> error + string" where
  "getPrivKeyForPubkey db publicKey = getValue db publicKey"

definition upsertUtxo ::
  "('c, 'z Utxo_scheme) Host \<Rightarrow> 'z Utxo_scheme \<Rightarrow> Storage \<Rightarrow> (error + unit) \<times> Storage" where
  "upsertUtxo H utxo db =
     (let key = getUtxoKey (txid utxo) (vout utxo)
      in (Inr (), upsertInBucket key (stringifyUtxo H utxo) utxoBucketTag db))"

definition deleteUtxo :: "'z Utxo_scheme \<Rightarrow> Storage \<Rightarrow> (error + unit) \<times> Storage" where
  "deleteUtxo utxo db =
     (let key = getUtxoKey (txid utxo) (vout utxo)
      in (Inr (), deleteInBucket key utxoBucketTag db))"

definition getUtxos ::
  "('c, 'z Utxo_scheme) Host \<Rightarrow> Storage \<Rightarrow> error + 'z Utxo_scheme nullable list" where
  "getUtxos H db = getAllValuesInBucketOfType (parseUtxo H) db utxoBucketTag"

definition unreserveUtxo ::
  "('c, 'z Utxo_scheme) Host \<Rightarrow> string \<Rightarrow> nat \<Rightarrow> Storage \<Rightarrow> (error + unit) \<times> Storage" where
  "unreserveUtxo H tx n db =
     (let key = getUtxoKey tx n
      in case getValueOfType (parseUtxo H) db key of
           Inl e \<Rightarrow> (Inl e, db)
         | Inr utxo \<Rightarrow>
             (Inr (), upsertValueInBucket (stringifyUtxo H) key (utxo\<lparr>reserved := False\<rparr>)
                        utxoBucketTag db))"

definition createContract ::
  "('y AnyContract_scheme, 'u) Host \<Rightarrow> 'y AnyContract_scheme \<Rightarrow> Storage \<Rightarrow>
     (error + unit) \<times> Storage" where
  "createContract H contract db =
     (Inr (), upsertValueInBucket (stringifyContract H) (getId H contract) contract
                contractBucketTag db)"

definition getContract ::
  "('y AnyContract_scheme, 'u) Host \<Rightarrow> Storage \<Rightarrow> string \<Rightarrow> error + 'y AnyContract_scheme" where
  "getContract H db contractId = getValueOfType (parseContract H) db contractId"

definition hasOneOfState ::
  "ContractState list option \<Rightarrow> 'y AnyContract_scheme nullable \<Rightarrow> error + bool" where
  "hasOneOfState sts contract =
     (case sts of
        None \<Rightarrow> Inr True
      | Some ss \<Rightarrow> (case contract of
                     Null \<Rightarrow> Inl TypeError
                   | Rec c \<Rightarrow> Inr (state c \<in> set ss)))"

definition isMatch :: "'y AnyContract_scheme nullable \<Rightarrow> ContractQuery \<Rightarrow> error + bool" where
  "isMatch contract query = hasOneOfState (states query) contract"

definition getContracts ::
  "('y AnyContract_scheme, 'u) Host \<Rightarrow> Storage \<Rightarrow> ContractQuery option \<Rightarrow>
     error + 'y AnyContract_scheme nullable list" where
  "getContracts H db query =
     (case getAllValuesInBucketOfType (parseContract H) db contractBucketTag of
        Inl e \<Rightarrow> Inl e
      | Inr allValues \<Rightarrow>
          (case query of
             None \<Rightarrow> Inr allValues
           | Some q \<Rightarrow> filter_throwing (\<lambda>x. hasOneOfState (states q) x) allValues))"

definition updateContract ::
  "('y AnyContract_scheme, 'u) Host \<Rightarrow> 'y AnyContract_scheme \<Rightarrow> Storage \<Rightarrow>
     (error + unit) \<times> Storage" where
  "updateContract H contract db =
     (let db1 = (if state contract = Accepted
                 then deleteInBucket (temporaryContractId contract) contractBucketTag db
                 else db)
      in (Inr (), upsertValueInBucket (stringifyContract H) (getId H contract) contract
                    contractBucketTag db1))"

definition deleteContract :: "string \<Rightarrow> Storage \<Rightarrow> (error + unit) \<times> Storage" where
  "deleteContract contractId db = (Inr (), deleteInBucket contractId contractBucketTag db)"

subsection \<open>Sequences of operations\<close>

text \<open>
  The operations of the repository that write. A caller runs them one after the other;
  a rejected operation does not stop the ones after it.
\<close>

datatype ('c, 'u) Operation =
    SaveLocation string
  | UpsertAddress string string
  | DeleteAddress string
  | UpsertKeyPair string string
  | UpsertUtxo 'u
  | DeleteUtxo 'u
  | UnreserveUtxo string nat
  | CreateContract 'c
  | UpdateContract 'c
  | DeleteContract string

fun exec ::
  "('y AnyContract_scheme, 'z Utxo_scheme) Host \<Rightarrow>
   ('y AnyContract_scheme, 'z Utxo_scheme) Operation \<Rightarrow> Storage \<Rightarrow> (error + unit) \<times> Storage" where
  "exec H (SaveLocation l) db = (Inr (), saveLocation l db)"
| "exec H (UpsertAddress a p) db = upsertAddress a p db"
| "exec H (DeleteAddress a) db = deleteAddress a db"
| "exec H (UpsertKeyPair k p) db = upsertKeyPair k p db"
| "exec H (UpsertUtxo u) db = upsertUtxo H u db"
| "exec H (DeleteUtxo u) db = deleteUtxo u db"
| "exec H (UnreserveUtxo tx n) db = unreserveUtxo H tx n db"
| "exec H (CreateContract c) db = createContract H c db"
| "exec H (UpdateContract c) db = updateContract H c db"
| "exec H (DeleteContract i) db = deleteContract i db"

definition run ::
  "('y AnyContract_scheme, 'z Utxo_scheme) Host \<Rightarrow>
   ('y AnyContract_scheme, 'z Utxo_scheme) Operation list \<Rightarrow> Storage \<Rightarrow> Storage" where
  "run H ops db = foldl (\<lambda>d operation. snd (exec H operation d)) db ops"

text \<open>Upserting a sequence of key-value pairs into one bucket, first pair first.\<close>

definition upsertAllInBucket :: "(string \<times> string) list \<Rightarrow> string \<Rightarrow> Storage \<Rightarrow> Storage" where
  "upsertAllInBucket kvs bucketTag db =
     foldl (\<lambda>d (k, v). upsertInBucket k v bucketTag d) db kvs"

subsection \<open>The buckets and the pairing of membership lists with value entries\<close>

datatype Bucket = AddressBucket | UtxoBucket | ContractBucket | KeyPairBucket

fun tagOf :: "Bucket \<Rightarrow> string" where
  "tagOf AddressBucket = addressBucketTag"
| "tagOf UtxoBucket = utxoBucketTag"
| "tagOf ContractBucket = contractBucketTag"
| "tagOf KeyPairBucket = keyPairBucketTag"

definition buckets :: "Bucket list" where
  "buckets = [AddressBucket, UtxoBucket, ContractBucket, KeyPairBucket]"

definition bucketTags :: "string list" where
  "bucketTags = map tagOf buckets"

definition comma_free :: "string \<Rightarrow> bool" where
  "comma_free k \<longleftrightarrow> CHR '','' \<notin> set k"

text \<open>The keys an operation passes to the bucket index, each with the bucket it is used in.\<close>

fun keysOf ::
  "('y AnyContract_scheme, 'z Utxo_scheme) Host \<Rightarrow>
   ('y AnyContract_scheme, 'z Utxo_scheme) Operation \<Rightarrow> (string \<times> Bucket) list" where
  "keysOf H (SaveLocation l) = []"
| "keysOf H (UpsertAddress a p) = [(a, AddressBucket)]"
| "keysOf H (DeleteAddress a) = [(a, AddressBucket)]"
| "keysOf H (UpsertKeyPair k p) = [(k, KeyPairBucket)]"
| "keysOf H (UpsertUtxo u) = [(getUtxoKey (txid u) (vout u), UtxoBucket)]"
| "keysOf H (DeleteUtxo u) = [(getUtxoKey (txid u) (vout u), UtxoBucket)]"
| "keysOf H (UnreserveUtxo tx n) = [(getUtxoKey tx n, UtxoBucket)]"
| "keysOf H (CreateContract c) = [(getId H c, ContractBucket)]"
| "keysOf H (UpdateContract c) =
     (if state c = Accepted then [(temporaryContractId c, ContractBucket)] else []) @
     [(getId H c, ContractBucket)]"
| "keysOf H (DeleteContract i) = [(i, ContractBucket)]"

text \<open>
  The precondition the repository leaves to its callers: a key holds no comma, is not a
  bucket tag, and is used in one bucket only (the bucket \<open>owner\<close> assigns to it).
\<close>

definition wellKeyed ::
  "(string \<Rightarrow> Bucket) \<Rightarrow> ('y AnyContract_scheme, 'z Utxo_scheme) Host \<Rightarrow>
   ('y AnyContract_scheme, 'z Utxo_scheme) Operation \<Rightarrow> bool" where
  "wellKeyed owner H operation =
     list_all (\<lambda>(k, b). comma_free k \<and> k \<notin> set bucketTags \<and> owner k = b)
       (keysOf H operation)"

text \<open>Every key of every membership list has a value entry.\<close>

definition membersHaveValues :: "Storage \<Rightarrow> bool" where
  "membersHaveValues db =
     list_all (\<lambda>b. list_all (\<lambda>k. db k \<noteq> None) (getBucketKeys db (tagOf b))) buckets"

text \<open>
  Every value entry, the bucket tag entries and the location entry apart, is listed in
  the membership list of the bucket its key is used in.
\<close>

definition valuesAreMembers :: "(string \<Rightarrow> Bucket) \<Rightarrow> Storage \<Rightarrow> bool" where
  "valuesAreMembers owner db \<longleftrightarrow>
     (\<forall>k. db k \<noteq> None \<longrightarrow>
        k \<in> set bucketTags \<or> k = locationKey \<or> k \<in> set (getBucketKeys db (tagOf (owner k))))"

definition pairingInvariant :: "(string \<Rightarrow> Bucket) \<Rightarrow> Storage \<Rightarrow> bool" where
  "pairingInvariant owner db \<longleftrightarrow> membersHaveValues db \<and> valuesAreMembers owner db"

text \<open>
  The invariant the operations maintain on well-keyed input: on top of the pairing, no
  membership list repeats a key, and a listed key is no bucket tag and is listed in the
  bucket it is used in.
\<close>

definition repositoryInvariant :: "(string \<Rightarrow> Bucket) \<Rightarrow> Storage \<Rightarrow> bool" where
  "repositoryInvariant owner db \<longleftrightarrow>
     (\<forall>b. distinct (getBucketKeys db (tagOf b)) \<and>
          (\<forall>k\<in>set (getBucketKeys db (tagOf b)).
             db k \<noteq> None \<and> owner k = b \<and> k \<notin> set bucketTags)) \<and>
     valuesAreMembers owner db"

subsection \<open>A sample environment\<close>

text \<open>
  A small environment on which the operations can be evaluated: contracts that carry
  their final identifier in a field of their own, and a codec that writes a record as one
  letter for the state (or the reserved flag) followed by two fields separated by a colon.
\<close>

record IdentifiedContract = AnyContract +
  contractId :: string

fun stateCode :: "ContractState \<Rightarrow> char" where
  "stateCode Offered = CHR ''O''"
| "stateCode Accepted = CHR ''A''"
| "stateCode Signed = CHR ''S''"
| "stateCode Confirmed = CHR ''C''"
| "stateCode Closed = CHR ''X''"
| "stateCode (OtherState n) = CHR ''?''"

definition stateOfCode :: "char \<Rightarrow> ContractState option" where
  "stateOfCode ch =
     map_of [(CHR ''O'', Offered), (CHR ''A'', Accepted), (CHR ''S'', Signed),
             (CHR ''C'', Confirmed), (CHR ''X'', Closed)] ch"

definition sampleStringifyContract :: "IdentifiedContract \<Rightarrow> string" where
  "sampleStringifyContract c =
     stateCode (state c) # temporaryContractId c @ CHR '':'' # contractId c"

definition sampleParseContract :: "string \<Rightarrow> IdentifiedContract option" where
  "sampleParseContract s =
     (case s of
        [] \<Rightarrow> None
      | ch # rest \<Rightarrow>
          (case stateOfCode ch of
             None \<Rightarrow> None
           | Some st \<Rightarrow>
               if CHR '':'' \<in> set rest
               then Some \<lparr>state = st,
                          temporaryContractId = takeWhile (\<lambda>c. c \<noteq> CHR '':'') rest,
                          contractId = tl (dropWhile (\<lambda>c. c \<noteq> CHR '':'') rest)\<rparr>
               else None))"

definition sampleStringifyUtxo :: "Utxo \<Rightarrow> string" where
  "sampleStringifyUtxo u =
     (if reserved u then CHR ''R'' else CHR ''F'') # replicate (vout u) CHR ''i'' @
     CHR '':'' # txid u"

definition sampleParseUtxo :: "string \<Rightarrow> Utxo option" where
  "sampleParseUtxo s =
     (case s of
        [] \<Rightarrow> None
      | ch # rest \<Rightarrow>
          if ch \<in> set ''RF'' \<and> CHR '':'' \<in> set rest \<and>
             list_all (\<lambda>c. c = CHR ''i'') (takeWhile (\<lambda>c. c \<noteq> CHR '':'') rest)
          then Some \<lparr>txid = tl (dropWhile (\<lambda>c. c \<noteq> CHR '':'') rest),
                     vout = length (takeWhile (\<lambda>c. c \<noteq> CHR '':'') rest),
                     reserved = (ch = CHR ''R'')\<rparr>
          else None)"

definition sampleHost :: "(IdentifiedContract, Utxo) Host" where
  "sampleHost =
     \<lparr>getId = contractId,
      stringifyContract = sampleStringifyContract,
      parseContract = sampleParseContract,
      stringifyUtxo = sampleStringifyUtxo,
      parseUtxo = sampleParseUtxo\<rparr>"

subsection \<open>The JSON codec of the host language\<close>

text \<open>
  \<^verbatim>\<open>JSON.stringify\<close> and \<^verbatim>\<open>JSON.parse\<close> belong to the host language. They are
  modelled here from the language standard, on the values a record can hold: a number is
  an integer or one of the three non-finite numbers (the model has no fractional numbers
  and no negative zero), a string is a list of code units below 256, and an object is the
  list of its own properties in the order of their enumeration. The operations of the
  repository take the codec as a parameter of their environment; \<open>JSON_stringify\<close> and
  \<open>JSON_parse_text\<close> are the codec itself.
\<close>

datatype js_number = Finite int | NaN | PosInfinity | NegInfinity





text \<open>
  \<^verbatim>\<open>QuoteJSONString\<close>: the quotation mark (code \<open>0x22\<close>) and the backslash (code
  \<open>0x5C\<close>) are escaped with a backslash, the control characters with a short escape or
  with \<^verbatim>\<open>\u00XX\<close>.
\<close>

definition hex4 :: "nat \<Rightarrow> string" where
  "hex4 n = [hex_digit (n div 4096 mod 16), hex_digit (n div 256 mod 16),
             hex_digit (n div 16 mod 16), hex_digit (n mod 16)]"

definition QuoteJSONChar :: "char \<Rightarrow> string" where
  "QuoteJSONChar c =
     (if c = CHR 0x22 then [CHR 0x5C, CHR 0x22]
      else if c = CHR 0x5C then [CHR 0x5C, CHR 0x5C]
      else if c = CHR 0x08 then [CHR 0x5C, CHR ''b'']
      else if c = CHR 0x0C then [CHR 0x5C, CHR ''f'']
      else if c = CHR 0x0A then [CHR 0x5C, CHR ''n'']
      else if c = CHR 0x0D then [CHR 0x5C, CHR ''r'']
      else if c = CHR 0x09 then [CHR 0x5C, CHR ''t'']
      else if (of_char c :: nat) < 32 then CHR 0x5C # CHR ''u'' # hex4 (of_char c)
      else [c])"

definition QuoteJSONString :: "string \<Rightarrow> string" where
  "QuoteJSONString s = CHR 0x22 # concat (map QuoteJSONChar s) @ [CHR 0x22]"


















section \<open>Properties\<close>

subsection \<open>Arrays and strings\<close>

lemma indexOf_range:
  "indexOf xs k = - 1 \<or> (0 \<le> indexOf xs k \<and> indexOf xs k < int (length xs))"
  by (induction xs) (auto simp: Let_def)

lemma indexOf_absent: "indexOf xs k = - 1 \<longleftrightarrow> k \<notin> set xs"
proof (induction xs)
  case Nil
  show ?case by simp
next
  case (Cons x xs)
  have "indexOf xs k + 1 \<noteq> - 1"
    using indexOf_range [of xs k] by auto
  with Cons show ?case by (auto simp: Let_def)
qed

lemma splice1_indexOf: "k \<in> set xs \<Longrightarrow> splice1 xs (indexOf xs k) = remove1 k xs"
proof (induction xs)
  case Nil
  then show ?case by simp
next
  case (Cons x xs)
  show ?case
  proof (cases "x = k")
    case True
    then show ?thesis by (simp add: splice1_def)
  next
    case False
    with Cons.prems have mem: "k \<in> set xs" by simp
    then have ne: "indexOf xs k \<noteq> - 1" by (simp add: indexOf_absent)
    with indexOf_range [of xs k] have nn: "0 \<le> indexOf xs k" by auto
    have "nat (indexOf xs k + 1) = Suc (nat (indexOf xs k))"
      using nn by (simp add: nat_add_distrib)
    with False ne Cons.IH [OF mem] show ?thesis
      by (simp add: splice1_def Let_def)
  qed
qed

lemma split_comma_not_Nil: "split_comma s \<noteq> []"
  by (induction s) (auto split: list.splits)

lemma split_comma_pieces: "w \<in> set (split_comma s) \<Longrightarrow> comma_free w"
  unfolding comma_free_def
  by (induction s arbitrary: w) (auto split: if_splits list.splits)

lemma split_comma_plain: "comma_free w \<Longrightarrow> split_comma w = [w]"
  unfolding comma_free_def by (induction w) auto

lemma split_comma_append:
  "comma_free w \<Longrightarrow> split_comma (w @ CHR '','' # s) = w # split_comma s"
  unfolding comma_free_def by (induction w) auto

lemma split_join:
  "xs \<noteq> [] \<Longrightarrow> \<forall>w\<in>set xs. comma_free w \<Longrightarrow> split_comma (join_comma xs) = xs"
  by (induction xs rule: join_comma.induct) (auto simp: split_comma_plain split_comma_append)

subsection \<open>The bucket index\<close>

lemma getBucketKeys_comma_free: "k \<in> set (getBucketKeys db t) \<Longrightarrow> comma_free k"
  by (auto simp: getBucketKeys_def split_comma_pieces split: option.splits)

lemma getBucketKeys_present: "k \<in> set (getBucketKeys db t) \<Longrightarrow> db t \<noteq> None"
  by (cases "db t") (auto simp: getBucketKeys_def)

lemma upsertInBucket_eq:
  "upsertInBucket key v t db =
     (if key \<in> set (getBucketKeys db t) then db(key \<mapsto> v)
      else db(t \<mapsto> join_comma (getBucketKeys db t @ [key]), key \<mapsto> v))"
  by (simp add: upsertInBucket_def Let_def indexOf_absent)

lemma deleteInBucket_eq:
  "deleteInBucket key t db =
     (if key \<notin> set (getBucketKeys db t) then db
      else if remove1 key (getBucketKeys db t) = [] then db(t := None, key := None)
      else db(t \<mapsto> join_comma (remove1 key (getBucketKeys db t)), key := None))"
  by (simp add: deleteInBucket_def Let_def indexOf_absent splice1_indexOf)

lemma upsertInBucket_key: "upsertInBucket key v t db key = Some v"
  by (simp add: upsertInBucket_eq)

lemma upsertInBucket_other:
  "k \<noteq> key \<Longrightarrow> k \<noteq> t \<Longrightarrow> upsertInBucket key v t db k = db k"
  by (simp add: upsertInBucket_eq)

lemma getBucketKeys_upsertInBucket:
  assumes "comma_free key" "key \<noteq> t"
  shows "getBucketKeys (upsertInBucket key v t db) t =
     (if key \<in> set (getBucketKeys db t) then getBucketKeys db t
      else getBucketKeys db t @ [key])"
proof (cases "key \<in> set (getBucketKeys db t)")
  case True
  with assms show ?thesis by (simp add: upsertInBucket_eq getBucketKeys_def)
next
  case False
  have "\<forall>w\<in>set (getBucketKeys db t @ [key]). comma_free w"
    using assms(1) by (auto dest: getBucketKeys_comma_free)
  then have "split_comma (join_comma (getBucketKeys db t @ [key])) = getBucketKeys db t @ [key]"
    by (intro split_join) simp_all
  with False assms(2) show ?thesis
    by (simp add: upsertInBucket_eq getBucketKeys_def)
qed

lemma getBucketKeys_upsertInBucket_other:
  "t' \<noteq> t \<Longrightarrow> t' \<noteq> key \<Longrightarrow>
   getBucketKeys (upsertInBucket key v t db) t' = getBucketKeys db t'"
  by (simp add: upsertInBucket_eq getBucketKeys_def)

lemma deleteInBucket_absent:
  "key \<notin> set (getBucketKeys db t) \<Longrightarrow> deleteInBucket key t db = db"
  by (simp add: deleteInBucket_eq)

lemma deleteInBucket_key:
  "key \<in> set (getBucketKeys db t) \<Longrightarrow> deleteInBucket key t db key = None"
  by (simp add: deleteInBucket_eq)

lemma deleteInBucket_other:
  "k \<noteq> key \<Longrightarrow> k \<noteq> t \<Longrightarrow> deleteInBucket key t db k = db k"
  by (simp add: deleteInBucket_eq)

lemma getBucketKeys_deleteInBucket:
  assumes "key \<noteq> t"
  shows "getBucketKeys (deleteInBucket key t db) t = remove1 key (getBucketKeys db t)"
proof (cases "key \<in> set (getBucketKeys db t)")
  case False
  then show ?thesis by (simp add: deleteInBucket_eq remove1_idem)
next
  case True
  show ?thesis
  proof (cases "remove1 key (getBucketKeys db t) = []")
    case True
    with \<open>key \<in> set (getBucketKeys db t)\<close> assms show ?thesis
      by (simp add: deleteInBucket_eq getBucketKeys_def)
  next
    case False
    have "\<forall>w\<in>set (remove1 key (getBucketKeys db t)). comma_free w"
      by (meson getBucketKeys_comma_free notin_set_remove1)
    with False have "split_comma (join_comma (remove1 key (getBucketKeys db t))) =
        remove1 key (getBucketKeys db t)"
      by (intro split_join) simp_all
    with False True assms show ?thesis
      by (simp add: deleteInBucket_eq getBucketKeys_def)
  qed
qed

lemma getBucketKeys_deleteInBucket_other:
  "t' \<noteq> t \<Longrightarrow> t' \<noteq> key \<Longrightarrow>
   getBucketKeys (deleteInBucket key t db) t' = getBucketKeys db t'"
  by (simp add: deleteInBucket_eq getBucketKeys_def)

subsection \<open>Enumerating an empty bucket\<close>

lemma getAllKeysInBucket_empty:
  "getBucketKeys db t = [] \<Longrightarrow> getAllKeysInBucket db t = []"
  by (simp add: getAllKeysInBucket_def getAllKeyValuesInBucket_def for_in_keys_def
      empty_object_def)

lemma getAllValuesInBucket_empty:
  "getBucketKeys db t = [] \<Longrightarrow> getAllValuesInBucket db t = []"
  by (simp add: getAllValuesInBucket_def getAllKeyValuesInBucket_def for_in_keys_def
      empty_object_def)

lemma getBucketKeys_absent: "db t = None \<Longrightarrow> getBucketKeys db t = []"
  by (simp add: getBucketKeys_def)

subsection \<open>Deleting the last member of a bucket\<close>

text \<open>
  Claim C4. When the membership list of a bucket holds exactly one key, deleting that key
  removes the bucket tag entry from the store (no empty string is stored under the tag),
  removes the value entry, and the bucket then enumerates to the empty sequence.
\<close>

theorem deleteInBucket_last_member:
  assumes "getBucketKeys db t = [k]"
  shows "deleteInBucket k t db t = None \<and>
         deleteInBucket k t db k = None \<and>
         getBucketKeys (deleteInBucket k t db) t = [] \<and>
         getAllKeysInBucket (deleteInBucket k t db) t = []"
proof -
  from assms have eq: "deleteInBucket k t db = db(t := None, k := None)"
    by (simp add: deleteInBucket_eq)
  then have gone: "deleteInBucket k t db t = None"
    by simp
  then have "getBucketKeys (deleteInBucket k t db) t = []"
    by (rule getBucketKeys_absent)
  with eq gone show ?thesis
    by (simp add: getAllKeysInBucket_empty)
qed

theorem deleteInBucket_last_member_witness:
  "getBucketKeys (snd (upsertAddress ''addr1'' ''priv1'' Map.empty)) addressBucketTag = [''addr1''] \<and>
   snd (deleteAddress ''addr1'' (snd (upsertAddress ''addr1'' ''priv1'' Map.empty))) addressBucketTag = None \<and>
   getAddresses (snd (deleteAddress ''addr1'' (snd (upsertAddress ''addr1'' ''priv1'' Map.empty)))) = Inr []"
proof -
  have h: "getBucketKeys (snd (upsertAddress ''addr1'' ''priv1'' Map.empty)) addressBucketTag = [''addr1'']"
    by (simp add: upsertAddress_def upsertInBucket_def getBucketKeys_def addressBucketTag_def)
  from deleteInBucket_last_member [OF h] h show ?thesis
    by (simp add: deleteAddress_def getAddresses_def)
qed

subsection \<open>Absent keys and empty buckets\<close>

lemma getValue_absent: "db k = None \<Longrightarrow> getValue db k = Inl (RepositoryError NotFound)"
  by (simp add: getValue_def)

lemma getValueOfType_absent:
  "db k = None \<Longrightarrow> getValueOfType parse db k = Inl (RepositoryError NotFound)"
  by (simp add: getValueOfType_def getValue_absent)

lemma getContracts_empty:
  "db contractBucketTag = None \<Longrightarrow> getContracts H db query = Inr []"
  by (cases query)
    (simp_all add: getContracts_def getAllValuesInBucketOfType_def getAllValuesInBucket_empty
      getBucketKeys_absent)

text \<open>
  Claim C5. For a key absent from the flat store, the single-item reads
  (\<open>getPrivKeyForAddress\<close>, \<open>getPrivKeyForPubkey\<close>, \<open>getContract\<close>, and the read that
  \<open>unreserveUtxo\<close> starts with) fail with \<open>NotFound\<close>, and \<open>hasContract\<close> returns
  \<open>False\<close> (it returns a boolean and has no failing branch). On a bucket whose tag entry
  is absent, \<open>getAddresses\<close>, \<open>getUtxos\<close> and \<open>getContracts\<close> (with any query or none)
  return the empty sequence.
\<close>

theorem absent_key_reads:
  "(db k = None \<longrightarrow>
      getPrivKeyForAddress db k = Inl (RepositoryError NotFound) \<and>
      getPrivKeyForPubkey db k = Inl (RepositoryError NotFound) \<and>
      getContract H db k = Inl (RepositoryError NotFound) \<and>
      hasContract db k = False) \<and>
   (db (getUtxoKey tx n) = None \<longrightarrow>
      getValueOfType (parseUtxo H) db (getUtxoKey tx n) = Inl (RepositoryError NotFound) \<and>
      fst (unreserveUtxo H tx n db) = Inl (RepositoryError NotFound)) \<and>
   (db addressBucketTag = None \<longrightarrow> getAddresses db = Inr []) \<and>
   (db utxoBucketTag = None \<longrightarrow> getUtxos H db = Inr []) \<and>
   (db contractBucketTag = None \<longrightarrow> getContracts H db query = Inr [])"
proof -
  have "getUtxos H db = Inr []" if "db utxoBucketTag = None"
    using that
    by (simp add: getUtxos_def getAllValuesInBucketOfType_def getAllValuesInBucket_empty
        getBucketKeys_absent)
  moreover have "getAddresses db = Inr []" if "db addressBucketTag = None"
    using that by (simp add: getAddresses_def getAllKeysInBucket_empty getBucketKeys_absent)
  moreover have "fst (unreserveUtxo H tx n db) = Inl (RepositoryError NotFound)"
    if "db (getUtxoKey tx n) = None"
    using that by (simp add: unreserveUtxo_def Let_def getValueOfType_absent)
  ultimately show ?thesis
    by (simp add: getPrivKeyForAddress_def getPrivKeyForPubkey_def getContract_def
        hasContract_def getValue_absent getValueOfType_absent getContracts_empty)
qed

theorem absent_key_reads_witness:
  "getPrivKeyForAddress Map.empty ''addr1'' = Inl (RepositoryError NotFound) \<and>
   getPrivKeyForPubkey Map.empty ''addr1'' = Inl (RepositoryError NotFound) \<and>
   getContract sampleHost Map.empty ''addr1'' = Inl (RepositoryError NotFound) \<and>
   hasContract Map.empty ''addr1'' = False \<and>
   fst (unreserveUtxo sampleHost ''ab'' 1 Map.empty) = Inl (RepositoryError NotFound) \<and>
   getAddresses Map.empty = Inr [] \<and>
   getUtxos sampleHost Map.empty = Inr [] \<and>
   getContracts sampleHost Map.empty (Some \<lparr>states = Some [Offered]\<rparr>) = Inr []"
  using absent_key_reads [of Map.empty "''addr1''" sampleHost "''ab''" 1
      "Some \<lparr>states = Some [Offered]\<rparr>"]
  by simp

subsection \<open>The existence probe\<close>

lemma upsertInBucket_tag_present: "upsertInBucket key v t db t \<noteq> None"
  by (auto simp: upsertInBucket_eq dest: getBucketKeys_present)

text \<open>
  Claim C10. \<open>hasContract\<close> returns true exactly when the flat store holds an entry under
  the given key, whatever the contract bucket lists. So it returns true for the tag of a
  bucket that has members (the address and the contract bucket after an upsert into them),
  for the location key once \<open>saveLocation\<close> has run, and for a key stored through another
  bucket: an address, a public key, a UTXO key.
\<close>

theorem hasContract_any_entry:
  "hasContract db i = (db i \<noteq> None) \<and>
   (getBucketKeys db t \<noteq> [] \<longrightarrow> hasContract db t) \<and>
   hasContract (snd (upsertAddress a p db)) addressBucketTag \<and>
   hasContract (snd (createContract H c db)) contractBucketTag \<and>
   hasContract (saveLocation l db) locationKey \<and>
   hasContract (snd (upsertAddress a p db)) a \<and>
   hasContract (snd (upsertKeyPair pk p db)) pk \<and>
   hasContract (snd (upsertUtxo H u db)) (getUtxoKey (txid u) (vout u))"
proof -
  have "hasContract db t" if "getBucketKeys db t \<noteq> []"
    using that by (cases "db t") (simp_all add: getBucketKeys_def hasContract_def)
  then show ?thesis
    by (simp add: hasContract_def upsertAddress_def createContract_def saveLocation_def
        upsertKeyPair_def upsertUtxo_def upsertValueInBucket_def upsertInBucket_key
        upsertInBucket_tag_present)
qed

theorem hasContract_any_entry_witness:
  "getBucketKeys (snd (upsertAddress ''addr1'' ''priv1'' Map.empty)) addressBucketTag \<noteq> [] \<and>
   hasContract (snd (upsertAddress ''addr1'' ''priv1'' Map.empty)) addressBucketTag \<and>
   hasContract (snd (upsertAddress ''addr1'' ''priv1'' Map.empty)) ''addr1'' \<and>
   hasContract (saveLocation ''here'' Map.empty) locationKey"
proof -
  have h: "getBucketKeys (snd (upsertAddress ''addr1'' ''priv1'' Map.empty)) addressBucketTag \<noteq> []"
    by (simp add: upsertAddress_def upsertInBucket_def getBucketKeys_def addressBucketTag_def)
  from hasContract_any_entry
    [of "snd (upsertAddress ''addr1'' ''priv1'' Map.empty)" _ addressBucketTag] h
  have "hasContract (snd (upsertAddress ''addr1'' ''priv1'' Map.empty)) addressBucketTag"
    by blast
  moreover from hasContract_any_entry [of Map.empty _ _ "''addr1''" "''priv1''" _ _ "''here''"]
  have "hasContract (snd (upsertAddress ''addr1'' ''priv1'' Map.empty)) ''addr1'' \<and>
        hasContract (saveLocation ''here'' Map.empty) locationKey"
    by blast
  ultimately show ?thesis using h by simp
qed

subsection \<open>Upserting a key twice\<close>

text \<open>
  Claim C3, as stated, for every bucket and every key: upserting \<open>(key, v1)\<close> and then
  \<open>(key, v2)\<close> leaves the membership list with exactly one occurrence of the key. It fails
  for a key that holds a comma (the list never shows the key), for a key that is the tag
  of the bucket (the value overwrites the list), and on a bucket whose list already
  repeats the key.
\<close>

theorem upsert_twice_counterexample:
  "count_list (getBucketKeys
      (snd (upsertAddress ''a,b'' ''v2'' (snd (upsertAddress ''a,b'' ''v1'' Map.empty))))
      addressBucketTag) ''a,b'' = 0 \<and>
   count_list (getBucketKeys
      (snd (upsertAddress ''addressBucket'' ''v2''
         (snd (upsertAddress ''addressBucket'' ''v1'' Map.empty))))
      addressBucketTag) ''addressBucket'' = 0 \<and>
   count_list (getBucketKeys
      (snd (upsertAddress ''k'' ''v2'' (snd (upsertAddress ''k'' ''v1''
         (snd (upsertAddress ''addressBucket'' ''k,k'' Map.empty))))))
      addressBucketTag) ''k'' = 2"
  by (simp add: upsertAddress_def upsertInBucket_def getBucketKeys_def addressBucketTag_def)

text \<open>
  Claim C3, amended. For a key that holds no comma and is not the tag of the bucket, and
  a bucket whose membership list holds the key at most once: after upserting \<open>(key, v1)\<close>
  and then \<open>(key, v2)\<close> the stored value is \<open>v2\<close>, the membership list holds the key
  exactly once, and the second upsert leaves the list as the first one left it.
\<close>

theorem upsert_twice:
  assumes "comma_free key" and "key \<noteq> t" and "count_list (getBucketKeys db t) key \<le> 1"
  shows "upsertInBucket key v2 t (upsertInBucket key v1 t db) key = Some v2 \<and>
         count_list (getBucketKeys (upsertInBucket key v2 t (upsertInBucket key v1 t db)) t) key = 1 \<and>
         getBucketKeys (upsertInBucket key v2 t (upsertInBucket key v1 t db)) t =
           getBucketKeys (upsertInBucket key v1 t db) t"
proof -
  let ?db1 = "upsertInBucket key v1 t db"
  have keys1: "getBucketKeys ?db1 t =
      (if key \<in> set (getBucketKeys db t) then getBucketKeys db t else getBucketKeys db t @ [key])"
    using assms(1,2) by (rule getBucketKeys_upsertInBucket)
  then have mem: "key \<in> set (getBucketKeys ?db1 t)"
    by simp
  have same: "getBucketKeys (upsertInBucket key v2 t ?db1) t = getBucketKeys ?db1 t"
    using mem by (simp add: getBucketKeys_upsertInBucket [OF assms(1,2)])
  have once: "count_list (getBucketKeys ?db1 t) key = 1"
  proof (cases "key \<in> set (getBucketKeys db t)")
    case True
    then have "count_list (getBucketKeys db t) key \<noteq> 0"
      by (simp add: count_list_0_iff)
    with assms(3) True keys1 show ?thesis by simp
  next
    case False
    then have "count_list (getBucketKeys db t) key = 0"
      by (simp add: count_list_0_iff)
    with False keys1 show ?thesis by simp
  qed
  show ?thesis
    using same once by (simp add: upsertInBucket_key)
qed

theorem upsert_twice_witness:
  "comma_free ''addr1'' \<and> ''addr1'' \<noteq> addressBucketTag \<and>
   count_list (getBucketKeys Map.empty addressBucketTag) ''addr1'' \<le> 1 \<and>
   snd (upsertAddress ''addr1'' ''v2'' (snd (upsertAddress ''addr1'' ''v1'' Map.empty))) ''addr1'' = Some ''v2'' \<and>
   count_list (getBucketKeys
      (snd (upsertAddress ''addr1'' ''v2'' (snd (upsertAddress ''addr1'' ''v1'' Map.empty))))
      addressBucketTag) ''addr1'' = 1"
proof -
  have h1: "comma_free ''addr1''" by (simp add: comma_free_def)
  have h2: "''addr1'' \<noteq> addressBucketTag" by (simp add: addressBucketTag_def)
  have h3: "count_list (getBucketKeys Map.empty addressBucketTag) ''addr1'' \<le> 1"
    by (simp add: getBucketKeys_def)
  note twice = upsert_twice [OF h1 h2 h3, of "''v2''" "''v1''"]
  from twice have a:
    "upsertInBucket ''addr1'' ''v2'' addressBucketTag
       (upsertInBucket ''addr1'' ''v1'' addressBucketTag Map.empty) ''addr1'' = Some ''v2''"
    by blast
  from twice have b:
    "count_list (getBucketKeys (upsertInBucket ''addr1'' ''v2'' addressBucketTag
       (upsertInBucket ''addr1'' ''v1'' addressBucketTag Map.empty)) addressBucketTag) ''addr1'' = 1"
    by blast
  from a b h1 h2 h3 show ?thesis
    by (simp add: upsertAddress_def)
qed

subsection \<open>Clearing the reserved flag of a UTXO\<close>

lemma toString16_last: "toString16 n \<noteq> [] \<and> last (toString16 n) = hex_digit (n mod 16)"
  by (subst (1 2) toString16.simps) simp

lemma hex_digit_chars: "d < 16 \<Longrightarrow> hex_digit d \<in> set ''0123456789abcdef''"
  unfolding hex_digit_def by (rule nth_mem) simp

lemma getUtxoKey_last: "last (getUtxoKey tx n) \<in> set ''0123456789abcdef''"
proof -
  have "last (getUtxoKey tx n) = hex_digit (n mod 16)"
    using toString16_last [of n] by (simp add: getUtxoKey_def padStart2_def)
  then show ?thesis
    using hex_digit_chars [of "n mod 16"] by simp
qed

lemma getUtxoKey_not_tag: "getUtxoKey tx n \<noteq> utxoBucketTag"
proof
  assume "getUtxoKey tx n = utxoBucketTag"
  then have "last (getUtxoKey tx n) = CHR ''t''"
    by (simp add: utxoBucketTag_def)
  with getUtxoKey_last [of tx n] show False
    by simp
qed

text \<open>
  Claim C6, as stated, for every UTXO that has an entry in the store: \<open>unreserveUtxo\<close>
  leaves the membership list of the UTXO bucket unchanged. It fails when the entry is not
  listed under its key. A UTXO stored through \<open>upsertUtxo\<close> under a transaction id that
  holds a comma is listed by the pieces of its key, and an entry stored through another
  bucket (here an address) is not listed in the UTXO bucket at all; in both stores
  \<open>unreserveUtxo\<close> succeeds and appends the key to the list.
\<close>

theorem unreserveUtxo_counterexample:
  "getBucketKeys
     (snd (upsertUtxo sampleHost \<lparr>txid = ''a,b'', vout = 1, reserved = True\<rparr> Map.empty))
     utxoBucketTag = [''a'', ''b01''] \<and>
   fst (unreserveUtxo sampleHost ''a,b'' 1
     (snd (upsertUtxo sampleHost \<lparr>txid = ''a,b'', vout = 1, reserved = True\<rparr> Map.empty))) =
     Inr () \<and>
   getBucketKeys
     (snd (unreserveUtxo sampleHost ''a,b'' 1
        (snd (upsertUtxo sampleHost \<lparr>txid = ''a,b'', vout = 1, reserved = True\<rparr> Map.empty))))
     utxoBucketTag = [''a'', ''b01'', ''a'', ''b01''] \<and>
   getBucketKeys (snd (upsertAddress ''ab01'' ''Ri:ab'' Map.empty)) utxoBucketTag = [] \<and>
   fst (unreserveUtxo sampleHost ''ab'' 1 (snd (upsertAddress ''ab01'' ''Ri:ab'' Map.empty))) =
     Inr () \<and>
   getBucketKeys
     (snd (unreserveUtxo sampleHost ''ab'' 1 (snd (upsertAddress ''ab01'' ''Ri:ab'' Map.empty))))
     utxoBucketTag = [''ab01'']"
proof -
  have key: "getUtxoKey tx (Suc 0) = tx @ ''01''" for tx
    by (simp add: getUtxoKey_def padStart2_def hex_digit_def)
  show ?thesis
    by (simp add: key Let_def unreserveUtxo_def upsertUtxo_def upsertAddress_def
        upsertValueInBucket_def upsertInBucket_def getValueOfType_def getValue_def
        getBucketKeys_def utxoBucketTag_def addressBucketTag_def sampleHost_def
        sampleStringifyUtxo_def sampleParseUtxo_def)
qed

text \<open>
  Claim C6, amended. When the store has no entry under the key of \<open>(txid, vout)\<close>,
  \<open>unreserveUtxo\<close> fails with \<open>NotFound\<close> and leaves the store as it was. On a UTXO
  whose key is listed in the membership list of the UTXO bucket and whose entry decodes to
  the record \<open>utxo\<close>, it succeeds and changes the store at that key only, where it writes
  the encoding of \<open>utxo\<close> with \<open>reserved\<close> set to false and every other field as it was;
  the membership list of the UTXO bucket is unchanged, and when the codec round-trips that
  record, reading the key again returns it.
\<close>

theorem unreserveUtxo_frame:
  "(db (getUtxoKey tx n) = None \<longrightarrow>
      unreserveUtxo H tx n db = (Inl (RepositoryError NotFound), db)) \<and>
   (db (getUtxoKey tx n) = Some str \<and> parseUtxo H str = Some utxo \<and>
    getUtxoKey tx n \<in> set (getBucketKeys db utxoBucketTag) \<longrightarrow>
      unreserveUtxo H tx n db =
        (Inr (), db(getUtxoKey tx n \<mapsto> stringifyUtxo H (utxo\<lparr>reserved := False\<rparr>))) \<and>
      getBucketKeys (snd (unreserveUtxo H tx n db)) utxoBucketTag =
        getBucketKeys db utxoBucketTag \<and>
      reserved (utxo\<lparr>reserved := False\<rparr>) = False \<and>
      txid (utxo\<lparr>reserved := False\<rparr>) = txid utxo \<and>
      vout (utxo\<lparr>reserved := False\<rparr>) = vout utxo \<and>
      Utxo.more (utxo\<lparr>reserved := False\<rparr>) = Utxo.more utxo \<and>
      (parseUtxo H (stringifyUtxo H (utxo\<lparr>reserved := False\<rparr>)) = Some (utxo\<lparr>reserved := False\<rparr>) \<longrightarrow>
         getValueOfType (parseUtxo H) (snd (unreserveUtxo H tx n db)) (getUtxoKey tx n) =
           Inr (utxo\<lparr>reserved := False\<rparr>)))"
proof -
  have absent: "unreserveUtxo H tx n db = (Inl (RepositoryError NotFound), db)"
    if "db (getUtxoKey tx n) = None"
    using that by (simp add: unreserveUtxo_def Let_def getValueOfType_absent)
  have stored: "unreserveUtxo H tx n db =
      (Inr (), db(getUtxoKey tx n \<mapsto> stringifyUtxo H (utxo\<lparr>reserved := False\<rparr>)))"
    if "db (getUtxoKey tx n) = Some str" "parseUtxo H str = Some utxo"
      "getUtxoKey tx n \<in> set (getBucketKeys db utxoBucketTag)"
    using that
    by (simp add: unreserveUtxo_def Let_def getValueOfType_def getValue_def
        upsertValueInBucket_def upsertInBucket_eq)
  have keys: "getBucketKeys (db(getUtxoKey tx n \<mapsto> w)) utxoBucketTag =
      getBucketKeys db utxoBucketTag" for w
    using getUtxoKey_not_tag [of tx n] by (simp add: getBucketKeys_def)
  show ?thesis
    using absent stored keys
    by (auto simp: getValueOfType_def getValue_def)
qed

theorem unreserveUtxo_frame_witness:
  "snd (upsertUtxo sampleHost \<lparr>txid = ''ab'', vout = 1, reserved = True\<rparr> Map.empty)
     (getUtxoKey ''ab'' 1) = Some ''Ri:ab'' \<and>
   parseUtxo sampleHost ''Ri:ab'' = Some \<lparr>txid = ''ab'', vout = 1, reserved = True\<rparr> \<and>
   getUtxoKey ''ab'' 1 \<in> set (getBucketKeys
     (snd (upsertUtxo sampleHost \<lparr>txid = ''ab'', vout = 1, reserved = True\<rparr> Map.empty))
     utxoBucketTag) \<and>
   getValueOfType (parseUtxo sampleHost)
     (snd (unreserveUtxo sampleHost ''ab'' 1
        (snd (upsertUtxo sampleHost \<lparr>txid = ''ab'', vout = 1, reserved = True\<rparr> Map.empty))))
     (getUtxoKey ''ab'' 1) = Inr \<lparr>txid = ''ab'', vout = 1, reserved = False\<rparr> \<and>
   Map.empty (getUtxoKey ''cd'' 0) = (None :: string option) \<and>
   unreserveUtxo sampleHost ''cd'' 0 Map.empty = (Inl (RepositoryError NotFound), Map.empty)"
proof -
  let ?u = "\<lparr>txid = ''ab'', vout = 1, reserved = True\<rparr>"
  let ?db = "snd (upsertUtxo sampleHost ?u Map.empty)"
  have key: "getUtxoKey ''ab'' 1 = ''ab01''"
    by (simp add: getUtxoKey_def padStart2_def hex_digit_def)
  then have key': "getUtxoKey ''ab'' (Suc 0) = ''ab01''"
    by simp
  have h1: "?db (getUtxoKey ''ab'' 1) = Some ''Ri:ab''"
    by (simp add: key' Let_def upsertUtxo_def upsertInBucket_def sampleHost_def
        sampleStringifyUtxo_def)
  have h2: "parseUtxo sampleHost ''Ri:ab'' = Some ?u"
    by (simp add: sampleHost_def sampleParseUtxo_def)
  have h3: "getUtxoKey ''ab'' 1 \<in> set (getBucketKeys ?db utxoBucketTag)"
    by (simp add: key' Let_def upsertUtxo_def upsertInBucket_def getBucketKeys_def
        utxoBucketTag_def)
  have h4: "parseUtxo sampleHost (stringifyUtxo sampleHost (?u\<lparr>reserved := False\<rparr>)) =
      Some (?u\<lparr>reserved := False\<rparr>)"
    by (simp add: sampleHost_def sampleParseUtxo_def sampleStringifyUtxo_def)
  have h5: "Map.empty (getUtxoKey ''cd'' 0) = (None :: string option)"
    by simp
  from unreserveUtxo_frame [of ?db "''ab''" 1 sampleHost "''Ri:ab''" ?u] h1 h2 h3 h4
  have a: "getValueOfType (parseUtxo sampleHost) (snd (unreserveUtxo sampleHost ''ab'' 1 ?db))
      (getUtxoKey ''ab'' 1) = Inr (?u\<lparr>reserved := False\<rparr>)"
    by blast
  from unreserveUtxo_frame [of Map.empty "''cd''" 0 sampleHost] h5
  have b: "unreserveUtxo sampleHost ''cd'' 0 Map.empty = (Inl (RepositoryError NotFound), Map.empty)"
    by blast
  from a b h1 h2 h3 h5 show ?thesis
    by simp
qed

subsection \<open>Moving a contract from its temporary to its final identifier\<close>

text \<open>
  Claim C1, as stated, for every accepted contract whose temporary identifier differs from
  the final one: after \<open>updateContract\<close>, reading the temporary identifier fails with
  \<open>NotFound\<close>. It fails when the temporary identifier is the tag of the contract bucket
  (on the empty store the tag entry is created by the upsert, and the read finds it), and
  when the store holds an entry under the temporary identifier that the contract bucket
  does not list (here an address): the read finds the entry and fails in the parser
  instead. In a store whose membership list names a key that has no entry, the preliminary
  delete changes the store although no record existed under that key.
\<close>

theorem updateContract_counterexample:
  "getContract sampleHost
     (snd (updateContract sampleHost
        \<lparr>state = Accepted, temporaryContractId = ''contractBucket'', contractId = ''final-1''\<rparr>
        Map.empty))
     ''contractBucket'' = Inl SyntaxError \<and>
   getContract sampleHost
     (snd (updateContract sampleHost
        \<lparr>state = Accepted, temporaryContractId = ''tmp-1'', contractId = ''final-1''\<rparr>
        (snd (upsertAddress ''tmp-1'' ''priv1'' Map.empty))))
     ''tmp-1'' = Inl SyntaxError \<and>
   snd (createContract sampleHost
        \<lparr>state = Offered, temporaryContractId = ''t0'', contractId = ''a,b''\<rparr> Map.empty) ''a'' = None \<and>
   deleteInBucket ''a'' contractBucketTag
     (snd (createContract sampleHost
        \<lparr>state = Offered, temporaryContractId = ''t0'', contractId = ''a,b''\<rparr> Map.empty))
     contractBucketTag = Some ''b''"
  by (simp add: getContract_def getValueOfType_def getValue_def updateContract_def
      createContract_def upsertAddress_def upsertValueInBucket_def upsertInBucket_def
      deleteInBucket_def getBucketKeys_def splice1_def contractBucketTag_def
      addressBucketTag_def sampleHost_def sampleStringifyContract_def sampleParseContract_def
      stateOfCode_def)

text \<open>
  Claim C1, amended. Take a contract whose state is Accepted and whose temporary identifier
  differs from its final identifier and from the tag of the contract bucket, and a store
  in which an entry under the temporary identifier, if there is one, is listed in the
  contract bucket. Then \<open>updateContract\<close> does not fail; afterwards \<open>getContract\<close> on the
  temporary identifier fails with \<open>NotFound\<close>, the entry under the final identifier is the
  encoding of the contract, and \<open>getContract\<close> on the final identifier returns the contract
  when the codec round-trips it. If the contract bucket does not list the temporary
  identifier, the preliminary delete leaves the store as it is.
\<close>

theorem updateContract_migration:
  assumes "state c = Accepted"
    and "temporaryContractId c \<noteq> getId H c"
    and "temporaryContractId c \<noteq> contractBucketTag"
    and "db (temporaryContractId c) \<noteq> None \<longrightarrow>
           temporaryContractId c \<in> set (getBucketKeys db contractBucketTag)"
  shows "fst (updateContract H c db) = Inr () \<and>
         getContract H (snd (updateContract H c db)) (temporaryContractId c) =
           Inl (RepositoryError NotFound) \<and>
         snd (updateContract H c db) (getId H c) = Some (stringifyContract H c) \<and>
         (parseContract H (stringifyContract H c) = Some c \<longrightarrow>
            getContract H (snd (updateContract H c db)) (getId H c) = Inr c) \<and>
         (temporaryContractId c \<notin> set (getBucketKeys db contractBucketTag) \<longrightarrow>
            deleteInBucket (temporaryContractId c) contractBucketTag db = db)"
proof -
  let ?tmp = "temporaryContractId c"
  let ?db1 = "deleteInBucket ?tmp contractBucketTag db"
  let ?db2 = "upsertInBucket (getId H c) (stringifyContract H c) contractBucketTag ?db1"
  have upd: "updateContract H c db = (Inr (), ?db2)"
    using assms(1) by (simp add: updateContract_def upsertValueInBucket_def)
  have "?db1 ?tmp = None"
  proof (cases "?tmp \<in> set (getBucketKeys db contractBucketTag)")
    case True
    then show ?thesis by (rule deleteInBucket_key)
  next
    case False
    with assms(4) show ?thesis by (simp add: deleteInBucket_absent)
  qed
  then have gone: "?db2 ?tmp = None"
    using assms(2,3) by (simp add: upsertInBucket_other)
  have stored: "?db2 (getId H c) = Some (stringifyContract H c)"
    by (rule upsertInBucket_key)
  show ?thesis
    using gone stored
    by (simp add: upd getContract_def getValueOfType_def getValue_def deleteInBucket_absent)
qed

theorem updateContract_migration_witness:
  "getContract sampleHost
     (snd (updateContract sampleHost
        \<lparr>state = Accepted, temporaryContractId = ''tmp-1'', contractId = ''final-1''\<rparr>
        (snd (createContract sampleHost
           \<lparr>state = Offered, temporaryContractId = ''tmp-1'', contractId = ''tmp-1''\<rparr> Map.empty))))
     ''tmp-1'' = Inl (RepositoryError NotFound) \<and>
   getContract sampleHost
     (snd (updateContract sampleHost
        \<lparr>state = Accepted, temporaryContractId = ''tmp-1'', contractId = ''final-1''\<rparr>
        (snd (createContract sampleHost
           \<lparr>state = Offered, temporaryContractId = ''tmp-1'', contractId = ''tmp-1''\<rparr> Map.empty))))
     ''final-1'' =
     Inr \<lparr>state = Accepted, temporaryContractId = ''tmp-1'', contractId = ''final-1''\<rparr>"
proof -
  let ?c = "\<lparr>state = Accepted, temporaryContractId = ''tmp-1'', contractId = ''final-1''\<rparr>"
  let ?db = "snd (createContract sampleHost
           \<lparr>state = Offered, temporaryContractId = ''tmp-1'', contractId = ''tmp-1''\<rparr> Map.empty)"
  have h1: "state ?c = Accepted" by simp
  have h2: "temporaryContractId ?c \<noteq> getId sampleHost ?c" by (simp add: sampleHost_def)
  have h3: "temporaryContractId ?c \<noteq> contractBucketTag" by (simp add: contractBucketTag_def)
  have h4: "?db (temporaryContractId ?c) \<noteq> None \<longrightarrow>
      temporaryContractId ?c \<in> set (getBucketKeys ?db contractBucketTag)"
    by (simp add: createContract_def upsertValueInBucket_def upsertInBucket_def
        getBucketKeys_def contractBucketTag_def sampleHost_def)
  have h5: "parseContract sampleHost (stringifyContract sampleHost ?c) = Some ?c"
    by (simp add: sampleHost_def sampleStringifyContract_def sampleParseContract_def
        stateOfCode_def)
  have h6: "getId sampleHost ?c = ''final-1''" by (simp add: sampleHost_def)
  note mig = updateContract_migration [OF h1 h2 h3 h4]
  from mig have a: "getContract sampleHost (snd (updateContract sampleHost ?c ?db))
      (temporaryContractId ?c) = Inl (RepositoryError NotFound)"
    by blast
  from mig h5 have b: "getContract sampleHost (snd (updateContract sampleHost ?c ?db))
      (getId sampleHost ?c) = Inr ?c"
    by blast
  from a b h6 show ?thesis
    by simp
qed

subsection \<open>Enumerating a bucket\<close>

lemma set_property_new:
  "key \<notin> set (map fst (properties obj)) \<Longrightarrow> key \<noteq> ''__proto__'' \<Longrightarrow>
   map fst (properties (set_property obj key v)) = map fst (properties obj) @ [key]"
  by (simp add: set_property_def)

lemma collect_keys:
  "distinct ks \<Longrightarrow> set ks \<inter> set (map fst (properties obj)) = {} \<Longrightarrow> ''__proto__'' \<notin> set ks \<Longrightarrow>
   map fst (properties (foldl (\<lambda>ret key. set_property ret key (f key)) obj ks)) =
     map fst (properties obj) @ ks"
proof (induction ks arbitrary: obj)
  case Nil
  show ?case by simp
next
  case (Cons k ks)
  from Cons.prems have new: "k \<notin> set (map fst (properties obj))" and np: "k \<noteq> ''__proto__''"
    by auto
  have keys: "map fst (properties (set_property obj k (f k))) = map fst (properties obj) @ [k]"
    using new np by (rule set_property_new)
  have "set ks \<inter> set (map fst (properties (set_property obj k (f k)))) = {}"
    using Cons.prems(1,2) by (auto simp: keys)
  with Cons.prems have
    "map fst (properties (foldl (\<lambda>ret key. set_property ret key (f key))
        (set_property obj k (f k)) ks)) =
     map fst (properties (set_property obj k (f k))) @ ks"
    by (intro Cons.IH) simp_all
  then show ?case by (simp add: keys)
qed

lemma getAllKeysInBucket_plain:
  assumes "distinct (getBucketKeys db t)"
    and "\<forall>k\<in>set (getBucketKeys db t). \<not> is_array_index k \<and> k \<noteq> ''__proto__''"
  shows "getAllKeysInBucket db t = getBucketKeys db t"
proof -
  have "''__proto__'' \<notin> set (getBucketKeys db t)"
    using assms(2) by blast
  with assms(1) have
    "map fst (properties (getAllKeyValuesInBucket db t)) = getBucketKeys db t"
    unfolding getAllKeyValuesInBucket_def
    by (subst collect_keys) (simp_all add: empty_object_def)
  moreover have "filter is_array_index (getBucketKeys db t) = []"
    using assms(2) by (simp add: filter_empty_conv)
  moreover have "filter (\<lambda>k. \<not> is_array_index k) (getBucketKeys db t) = getBucketKeys db t"
    using assms(2) by (simp add: filter_id_conv)
  ultimately show ?thesis
    by (simp add: getAllKeysInBucket_def for_in_keys_def)
qed

lemma getBucketKeys_upsertAllInBucket:
  "distinct (getBucketKeys db t @ map fst kvs) \<Longrightarrow>
   \<forall>k\<in>set (map fst kvs). comma_free k \<and> k \<noteq> t \<Longrightarrow>
   getBucketKeys (upsertAllInBucket kvs t db) t = getBucketKeys db t @ map fst kvs"
proof (induction kvs arbitrary: db)
  case Nil
  show ?case by (simp add: upsertAllInBucket_def)
next
  case (Cons kv kvs)
  obtain k v where kv: "kv = (k, v)" by (cases kv)
  from Cons.prems kv have k: "comma_free k" "k \<noteq> t" "k \<notin> set (getBucketKeys db t)"
    by auto
  then have step: "getBucketKeys (upsertInBucket k v t db) t = getBucketKeys db t @ [k]"
    by (simp add: getBucketKeys_upsertInBucket)
  have "getBucketKeys (upsertAllInBucket kvs t (upsertInBucket k v t db)) t =
      getBucketKeys (upsertInBucket k v t db) t @ map fst kvs"
    using Cons.prems kv by (intro Cons.IH) (simp_all add: step)
  then show ?case
    by (simp add: upsertAllInBucket_def kv step)
qed

text \<open>
  Claim C9, as stated, for every sequence of pairwise-distinct keys: the key enumeration
  returns the keys in the order of their first upsert. It fails when a key is an array
  index (the enumeration of the object puts \<open>''1''\<close> before \<open>''b''\<close>), when a key holds a
  comma (its pieces are returned), when a key is \<open>''__proto__''\<close> (it never becomes a
  property of the object) and when a key is the tag of the bucket.
\<close>

theorem key_order_counterexample:
  "getAddresses (snd (upsertAddress ''1'' ''p2'' (snd (upsertAddress ''b'' ''p1'' Map.empty)))) =
     Inr [''1'', ''b''] \<and>
   getAddresses (snd (upsertAddress ''a,b'' ''p1'' Map.empty)) = Inr [''a'', ''b''] \<and>
   getAddresses (snd (upsertAddress ''__proto__'' ''p1'' Map.empty)) = Inr [] \<and>
   getAddresses (snd (upsertAddress ''addressBucket'' ''p1'' Map.empty)) = Inr [''p1'']"
  by (simp add: getAddresses_def getAllKeysInBucket_def getAllKeyValuesInBucket_def
      for_in_keys_def set_property_def empty_object_def is_array_index_def decimal_value_def
      upsertAddress_def upsertInBucket_def getBucketKeys_def addressBucketTag_def)

text \<open>
  Claim C9, amended. Upsert pairwise-distinct keys into a bucket whose tag entry is absent,
  where no key holds a comma, is the tag of the bucket, is an array index or is
  \<open>''__proto__''\<close>. Then the membership list and the key enumeration of the bucket are
  both the sequence of the upserted keys, each once, in the order of the upserts.
\<close>

theorem keys_in_insertion_order:
  assumes "db t = None"
    and "distinct (map fst kvs)"
    and "\<forall>k\<in>set (map fst kvs).
           comma_free k \<and> k \<noteq> t \<and> \<not> is_array_index k \<and> k \<noteq> ''__proto__''"
  shows "getBucketKeys (upsertAllInBucket kvs t db) t = map fst kvs \<and>
         getAllKeysInBucket (upsertAllInBucket kvs t db) t = map fst kvs"
proof -
  have "getBucketKeys db t = []"
    using assms(1) by (rule getBucketKeys_absent)
  with assms(2,3) have keys: "getBucketKeys (upsertAllInBucket kvs t db) t = map fst kvs"
    by (subst getBucketKeys_upsertAllInBucket) simp_all
  with assms(2,3) have "getAllKeysInBucket (upsertAllInBucket kvs t db) t = map fst kvs"
    by (subst getAllKeysInBucket_plain) simp_all
  with keys show ?thesis by simp
qed

theorem keys_in_insertion_order_witness:
  "getAddresses (snd (upsertAddress ''addr1'' ''p2'' (snd (upsertAddress ''addr2'' ''p1'' Map.empty)))) =
     Inr [''addr2'', ''addr1'']"
proof -
  let ?kvs = "[(''addr2'', ''p1''), (''addr1'', ''p2'')]"
  have h1: "(Map.empty :: Storage) addressBucketTag = None" by simp
  have h2: "distinct (map fst ?kvs)" by simp
  have h3: "\<forall>k\<in>set (map fst ?kvs).
      comma_free k \<and> k \<noteq> addressBucketTag \<and> \<not> is_array_index k \<and> k \<noteq> ''__proto__''"
    by (simp add: comma_free_def addressBucketTag_def is_array_index_def)
  from keys_in_insertion_order [OF h1 h2 h3] show ?thesis
    by (simp add: getAddresses_def upsertAddress_def upsertAllInBucket_def)
qed

subsection \<open>Listing and filtering contracts\<close>

lemma set_property_values:
  assumes "\<forall>(k, v)\<in>set (properties obj). v = f k"
  shows "\<forall>(k, v)\<in>set (properties (set_property obj key (f key))). v = f k"
  using assms by (auto simp: set_property_def split: option.splits if_splits)

lemma collect_values:
  "\<forall>(k, v)\<in>set (properties obj). v = f k \<Longrightarrow>
   \<forall>(k, v)\<in>set (properties (foldl (\<lambda>ret key. set_property ret key (f key)) obj ks)). v = f k"
proof (induction ks arbitrary: obj)
  case Nil
  then show ?case by simp
next
  case (Cons k ks)
  from Cons.prems have "\<forall>(k', v)\<in>set (properties (set_property obj k (f k))). v = f k'"
    by (rule set_property_values)
  then show ?case
    by (simp add: Cons.IH)
qed

lemma get_property_own:
  assumes "\<forall>(k, v)\<in>set (properties obj). v = f k" and "key \<in> set (map fst (properties obj))"
  shows "get_property obj key = f key"
proof -
  from assms(2) obtain v where v: "map_of (properties obj) key = Some v"
    by (metis map_of_eq_None_iff not_Some_eq set_map)
  then have "(key, v) \<in> set (properties obj)"
    by (rule map_of_SomeD)
  with assms(1) have "v = f key" by blast
  with v show ?thesis by (simp add: get_property_def)
qed

lemma for_in_keys_own: "set (for_in_keys obj) \<subseteq> set (map fst (properties obj))"
  by (auto simp: for_in_keys_def Let_def)

lemma getAllValuesInBucket_eq:
  "getAllValuesInBucket db t = map db (getAllKeysInBucket db t)"
proof -
  let ?obj = "getAllKeyValuesInBucket db t"
  have vals: "\<forall>(k, v)\<in>set (properties ?obj). v = db k"
    unfolding getAllKeyValuesInBucket_def
    by (rule collect_values) (simp add: empty_object_def)
  have "get_property ?obj k = db k" if "k \<in> set (for_in_keys ?obj)" for k
    using vals that for_in_keys_own [of ?obj] by (intro get_property_own) auto
  then have "map (get_property ?obj) (for_in_keys ?obj) = map db (for_in_keys ?obj)"
    by (intro map_cong) simp_all
  then show ?thesis
    by (simp add: getAllValuesInBucket_def getAllKeysInBucket_def Let_def)
qed

lemma filter_throwing_states:
  "filter_throwing (\<lambda>x. hasOneOfState (Some sts) x) (map Rec cs) =
     Inr (map Rec (filter (\<lambda>c. state c \<in> set sts) cs))"
  by (induction cs) (simp_all add: hasOneOfState_def)

lemma filter_throwing_no_states:
  "filter_throwing (\<lambda>x. hasOneOfState None x) xs = Inr xs"
  by (induction xs) (simp_all add: hasOneOfState_def)

lemma overwrite_keys:
  "map fst (map (\<lambda>(k, w). if k = key then (k, v) else (k, w)) ps) = map fst ps"
  by (induction ps) auto

lemma set_property_key_list:
  "map fst (properties (set_property obj key v)) =
     (if key \<in> set (map fst (properties obj)) \<or> (key = ''__proto__'' \<and> \<not> proto_null obj)
      then map fst (properties obj)
      else map fst (properties obj) @ [key])"
  by (simp add: set_property_def overwrite_keys del: map_map split: option.splits)

lemma set_property_keys:
  "key \<noteq> ''__proto__'' \<Longrightarrow>
   set (map fst (properties (set_property obj key v))) =
     insert key (set (map fst (properties obj)))"
  unfolding set_property_key_list by auto

lemma set_property_distinct:
  "distinct (map fst (properties obj)) \<Longrightarrow>
   distinct (map fst (properties (set_property obj key v)))"
  unfolding set_property_key_list by auto

lemma collect_keys_set:
  "''__proto__'' \<notin> set ks \<Longrightarrow>
   set (map fst (properties (foldl (\<lambda>ret key. set_property ret key (f key)) obj ks))) =
     set (map fst (properties obj)) \<union> set ks"
proof (induction ks arbitrary: obj)
  case Nil
  show ?case by simp
next
  case (Cons k ks)
  then have "k \<noteq> ''__proto__''" "''__proto__'' \<notin> set ks"
    by auto
  then show ?case
    using Cons.IH [of "set_property obj k (f k)"] set_property_keys [of k obj "f k"]
    by auto
qed

lemma collect_keys_distinct:
  "distinct (map fst (properties obj)) \<Longrightarrow>
   distinct (map fst (properties (foldl (\<lambda>ret key. set_property ret key (f key)) obj ks)))"
  by (induction ks arbitrary: obj) (simp_all add: set_property_distinct)

lemma for_in_keys_set: "set (for_in_keys obj) = set (map fst (properties obj))"
  by (auto simp: for_in_keys_def Let_def)

lemma for_in_keys_distinct:
  "distinct (map fst (properties obj)) \<Longrightarrow> distinct (for_in_keys obj)"
  by (auto simp: for_in_keys_def Let_def)

lemma getAllKeysInBucket_members:
  assumes "''__proto__'' \<notin> set (getBucketKeys db t)"
  shows "set (getAllKeysInBucket db t) = set (getBucketKeys db t) \<and>
         distinct (getAllKeysInBucket db t)"
proof -
  have "set (map fst (properties (getAllKeyValuesInBucket db t))) = set (getBucketKeys db t)"
    unfolding getAllKeyValuesInBucket_def
    using assms by (subst collect_keys_set) (simp_all add: empty_object_def)
  moreover have "distinct (map fst (properties (getAllKeyValuesInBucket db t)))"
    unfolding getAllKeyValuesInBucket_def
    by (rule collect_keys_distinct) (simp add: empty_object_def)
  ultimately show ?thesis
    by (simp add: getAllKeysInBucket_def for_in_keys_set for_in_keys_distinct)
qed

lemma map_throwing_records:
  "\<forall>k\<in>set ks. db k = Some (stringify (r k)) \<and> parse (stringify (r k)) = Some (r k) \<Longrightarrow>
   map_throwing (JSON_parse parse) (map db ks) = Inr (map (\<lambda>k. Rec (r k)) ks)"
  by (induction ks) (simp_all add: JSON_parse_def)

text \<open>
  Claim C7, as stated, for every store contents. It fails on a store whose contract
  bucket lists a key that has no entry: the value loaded for that key is \<open>null\<close>, which
  \<open>getContracts\<close> with no query returns as it is and on which the state filter throws.
  Creating a contract under an identifier that holds a comma produces such a store. It
  fails too for a contract stored under \<open>''__proto__''\<close>: the bucket lists it, and the
  enumeration of the bucket leaves it out.
\<close>

theorem getContracts_counterexample:
  "getContracts sampleHost
     (snd (createContract sampleHost
        \<lparr>state = Offered, temporaryContractId = ''t1'', contractId = ''a,b''\<rparr> Map.empty))
     (Some \<lparr>states = Some [Offered]\<rparr>) = Inl TypeError \<and>
   getContracts sampleHost
     (snd (createContract sampleHost
        \<lparr>state = Offered, temporaryContractId = ''t1'', contractId = ''a,b''\<rparr> Map.empty))
     None = Inr [Null, Null] \<and>
   getBucketKeys
     (snd (createContract sampleHost
        \<lparr>state = Offered, temporaryContractId = ''t1'', contractId = ''__proto__''\<rparr> Map.empty))
     contractBucketTag = [''__proto__''] \<and>
   getContract sampleHost
     (snd (createContract sampleHost
        \<lparr>state = Offered, temporaryContractId = ''t1'', contractId = ''__proto__''\<rparr> Map.empty))
     ''__proto__'' = Inr \<lparr>state = Offered, temporaryContractId = ''t1'', contractId = ''__proto__''\<rparr> \<and>
   getContracts sampleHost
     (snd (createContract sampleHost
        \<lparr>state = Offered, temporaryContractId = ''t1'', contractId = ''__proto__''\<rparr> Map.empty))
     None = Inr []"
  by (simp add: getContracts_def getContract_def getValueOfType_def getValue_def
      getAllValuesInBucketOfType_def getAllValuesInBucket_def
      getAllKeyValuesInBucket_def for_in_keys_def set_property_def get_property_def
      empty_object_def is_array_index_def JSON_parse_def hasOneOfState_def
      createContract_def upsertValueInBucket_def upsertInBucket_def getBucketKeys_def
      contractBucketTag_def sampleHost_def sampleStringifyContract_def
      sampleParseContract_def stateOfCode_def)

text \<open>
  Claim C7, amended. Take a store in which no key of the contract bucket's membership
  list is \<open>''__proto__''\<close> and every listed key \<open>k\<close> has a value entry that is the
  encoding of a record \<open>r k\<close> which the codec round-trips: these are the stored contract
  records. The enumeration of the bucket visits every listed key exactly once. With no
  query \<open>getContracts\<close> returns the records of all the keys visited, and with a query that
  carries the states \<open>sts\<close> it returns exactly those of them whose state is one of
  \<open>sts\<close>; a query that carries no states returns all of them.
\<close>

theorem getContracts_by_state:
  assumes "''__proto__'' \<notin> set (getBucketKeys db contractBucketTag)"
    and "\<forall>k\<in>set (getBucketKeys db contractBucketTag).
           db k = Some (stringifyContract H (r k)) \<and>
           parseContract H (stringifyContract H (r k)) = Some (r k)"
  shows "set (getAllKeysInBucket db contractBucketTag) = set (getBucketKeys db contractBucketTag) \<and>
         distinct (getAllKeysInBucket db contractBucketTag) \<and>
         getContracts H db None =
           Inr (map (\<lambda>k. Rec (r k)) (getAllKeysInBucket db contractBucketTag)) \<and>
         getContracts H db (Some \<lparr>states = Some sts\<rparr>) =
           Inr (map Rec (filter (\<lambda>c. state c \<in> set sts)
                  (map r (getAllKeysInBucket db contractBucketTag)))) \<and>
         getContracts H db (Some \<lparr>states = None\<rparr>) =
           Inr (map (\<lambda>k. Rec (r k)) (getAllKeysInBucket db contractBucketTag))"
proof -
  let ?order = "getAllKeysInBucket db contractBucketTag"
  note members = getAllKeysInBucket_members [OF assms(1)]
  with assms(2) have "\<forall>k\<in>set ?order.
      db k = Some (stringifyContract H (r k)) \<and>
      parseContract H (stringifyContract H (r k)) = Some (r k)"
    by simp
  then have "map_throwing (JSON_parse (parseContract H)) (map db ?order) =
      Inr (map (\<lambda>k. Rec (r k)) ?order)"
    by (rule map_throwing_records)
  then have loaded: "getAllValuesInBucketOfType (parseContract H) db contractBucketTag =
      Inr (map Rec (map r ?order))"
    by (simp add: getAllValuesInBucketOfType_def getAllValuesInBucket_eq comp_def)
  have "getContracts H db (Some \<lparr>states = Some sts\<rparr>) =
      filter_throwing (\<lambda>x. hasOneOfState (Some sts) x) (map Rec (map r ?order))"
    unfolding getContracts_def loaded by (simp del: map_map)
  then have "getContracts H db (Some \<lparr>states = Some sts\<rparr>) =
      Inr (map Rec (filter (\<lambda>c. state c \<in> set sts) (map r ?order)))"
    by (simp only: filter_throwing_states)
  moreover have "getContracts H db (Some \<lparr>states = None\<rparr>) = Inr (map (\<lambda>k. Rec (r k)) ?order)"
    unfolding getContracts_def loaded by (simp add: filter_throwing_no_states comp_def)
  moreover have "getContracts H db None = Inr (map (\<lambda>k. Rec (r k)) ?order)"
    unfolding getContracts_def loaded by (simp add: comp_def)
  ultimately show ?thesis
    using members by simp
qed

theorem getContracts_by_state_witness:
  "getContracts sampleHost
     (snd (createContract sampleHost
        \<lparr>state = Signed, temporaryContractId = ''t2'', contractId = ''c2''\<rparr>
        (snd (createContract sampleHost
           \<lparr>state = Offered, temporaryContractId = ''t1'', contractId = ''t1''\<rparr> Map.empty))))
     (Some \<lparr>states = Some [Offered, Accepted]\<rparr>) =
   Inr [Rec \<lparr>state = Offered, temporaryContractId = ''t1'', contractId = ''t1''\<rparr>]"
proof -
  let ?c1 = "\<lparr>state = Offered, temporaryContractId = ''t1'', contractId = ''t1''\<rparr>"
  let ?c2 = "\<lparr>state = Signed, temporaryContractId = ''t2'', contractId = ''c2''\<rparr>"
  let ?db = "snd (createContract sampleHost ?c2 (snd (createContract sampleHost ?c1 Map.empty)))"
  let ?r = "\<lambda>k. if k = ''t1'' then ?c1 else ?c2"
  have keys: "getBucketKeys ?db contractBucketTag = [''t1'', ''c2'']"
    by (simp add: createContract_def upsertValueInBucket_def upsertInBucket_def
        getBucketKeys_def contractBucketTag_def sampleHost_def)
  have order: "getAllKeysInBucket ?db contractBucketTag = [''t1'', ''c2'']"
    by (simp add: getAllKeysInBucket_def getAllKeyValuesInBucket_def keys for_in_keys_def
        set_property_def empty_object_def is_array_index_def)
  have h1: "''__proto__'' \<notin> set (getBucketKeys ?db contractBucketTag)"
    by (simp add: keys)
  have h2: "\<forall>k\<in>set (getBucketKeys ?db contractBucketTag).
      ?db k = Some (stringifyContract sampleHost (?r k)) \<and>
      parseContract sampleHost (stringifyContract sampleHost (?r k)) = Some (?r k)"
    unfolding keys
    by (simp add: createContract_def upsertValueInBucket_def upsertInBucket_def
        getBucketKeys_def contractBucketTag_def sampleHost_def sampleStringifyContract_def
        sampleParseContract_def stateOfCode_def)
  from getContracts_by_state [OF h1 h2, of "[Offered, Accepted]"] show ?thesis
    by (simp add: order)
qed

subsection \<open>The pairing invariant\<close>

lemma tagOf_inj: "tagOf b = tagOf b' \<longleftrightarrow> b = b'"
  by (cases b; cases b')
    (simp_all add: addressBucketTag_def utxoBucketTag_def contractBucketTag_def
      keyPairBucketTag_def)

lemma tagOf_in_tags: "tagOf b \<in> set bucketTags"
  by (cases b) (simp_all add: bucketTags_def buckets_def)

lemma locationKey_not_tag: "locationKey \<noteq> tagOf b"
  by (cases b)
    (simp_all add: locationKey_def addressBucketTag_def utxoBucketTag_def
      contractBucketTag_def keyPairBucketTag_def)

lemma keys_after_upsert:
  assumes "comma_free k" and "k \<notin> set bucketTags"
  shows "getBucketKeys (upsertInBucket k v (tagOf b) db) (tagOf b') =
     (if b' = b \<and> k \<notin> set (getBucketKeys db (tagOf b))
      then getBucketKeys db (tagOf b) @ [k]
      else getBucketKeys db (tagOf b'))"
proof (cases "b' = b")
  case True
  from assms(2) have "k \<noteq> tagOf b"
    using tagOf_in_tags [of b] by auto
  with assms(1) True show ?thesis
    by (simp add: getBucketKeys_upsertInBucket)
next
  case False
  then have "tagOf b' \<noteq> tagOf b"
    by (simp add: tagOf_inj)
  moreover from assms(2) have "tagOf b' \<noteq> k"
    using tagOf_in_tags [of b'] by auto
  ultimately show ?thesis
    using False by (simp add: getBucketKeys_upsertInBucket_other)
qed

lemma upsert_entry_kept: "db x \<noteq> None \<Longrightarrow> upsertInBucket k v t db x \<noteq> None"
  by (simp add: upsertInBucket_eq)

lemma upsert_entry_origin:
  "upsertInBucket k v t db x \<noteq> None \<Longrightarrow> x = k \<or> x = t \<or> db x \<noteq> None"
  by (simp add: upsertInBucket_eq split: if_splits)

lemma keys_after_delete:
  assumes "k \<notin> set bucketTags"
  shows "getBucketKeys (deleteInBucket k (tagOf b) db) (tagOf b') =
     (if b' = b then remove1 k (getBucketKeys db (tagOf b))
      else getBucketKeys db (tagOf b'))"
proof (cases "b' = b")
  case True
  from assms have "k \<noteq> tagOf b"
    using tagOf_in_tags [of b] by auto
  with True show ?thesis
    by (simp add: getBucketKeys_deleteInBucket)
next
  case False
  then have "tagOf b' \<noteq> tagOf b"
    by (simp add: tagOf_inj)
  moreover from assms have "tagOf b' \<noteq> k"
    using tagOf_in_tags [of b'] by auto
  ultimately show ?thesis
    using False by (simp add: getBucketKeys_deleteInBucket_other)
qed

lemma delete_entry_origin:
  "deleteInBucket k t db x \<noteq> None \<Longrightarrow>
   db x \<noteq> None \<and> (x = k \<longrightarrow> k \<notin> set (getBucketKeys db t))"
  by (auto simp: deleteInBucket_eq split: if_splits dest: getBucketKeys_present)

lemma in_remove1D: "x \<in> set (remove1 k xs) \<Longrightarrow> x \<in> set xs"
  by (meson notin_set_remove1)

lemma repositoryInvariant_empty: "repositoryInvariant owner Map.empty"
  by (simp add: repositoryInvariant_def valuesAreMembers_def getBucketKeys_def)

lemma repositoryInvariant_upsert:
  assumes inv: "repositoryInvariant owner db"
    and k: "comma_free k" "k \<notin> set bucketTags" "owner k = b"
  shows "repositoryInvariant owner (upsertInBucket k v (tagOf b) db)"
proof -
  let ?db = "upsertInBucket k v (tagOf b) db"
  note keys = keys_after_upsert [OF k(1,2), of v b db]
  have lists: "distinct (getBucketKeys ?db (tagOf b')) \<and>
      (\<forall>x\<in>set (getBucketKeys ?db (tagOf b')).
         ?db x \<noteq> None \<and> owner x = b' \<and> x \<notin> set bucketTags)" for b'
  proof -
    from inv have old: "distinct (getBucketKeys db (tagOf b'))"
      "\<forall>x\<in>set (getBucketKeys db (tagOf b')). db x \<noteq> None \<and> owner x = b' \<and> x \<notin> set bucketTags"
      by (simp_all add: repositoryInvariant_def)
    have new: "?db k \<noteq> None"
      by (simp add: upsertInBucket_key)
    have "?db x \<noteq> None \<and> owner x = b' \<and> x \<notin> set bucketTags"
      if "x \<in> set (getBucketKeys ?db (tagOf b'))" for x
    proof (cases "x \<in> set (getBucketKeys db (tagOf b'))")
      case True
      with old(2) have "db x \<noteq> None" "owner x = b'" "x \<notin> set bucketTags"
        by auto
      then show ?thesis
        using upsert_entry_kept by blast
    next
      case False
      with that have "x = k" "b' = b"
        by (auto simp: keys split: if_splits)
      with new k(2,3) show ?thesis by simp
    qed
    moreover have "distinct (getBucketKeys ?db (tagOf b'))"
      using old(1) by (auto simp: keys)
    ultimately show ?thesis by blast
  qed
  have "valuesAreMembers owner ?db"
    unfolding valuesAreMembers_def
  proof (intro allI impI)
    fix x
    assume "?db x \<noteq> None"
    then consider "x = k" | "x = tagOf b" | "db x \<noteq> None"
      using upsert_entry_origin by blast
    then show "x \<in> set bucketTags \<or> x = locationKey \<or>
        x \<in> set (getBucketKeys ?db (tagOf (owner x)))"
    proof cases
      case 1
      with k(3) show ?thesis by (simp add: keys)
    next
      case 2
      then show ?thesis by (simp add: tagOf_in_tags)
    next
      case 3
      with inv have "x \<in> set bucketTags \<or> x = locationKey \<or>
          x \<in> set (getBucketKeys db (tagOf (owner x)))"
        by (simp add: repositoryInvariant_def valuesAreMembers_def)
      then show ?thesis by (auto simp: keys)
    qed
  qed
  with lists show ?thesis
    by (simp add: repositoryInvariant_def)
qed

lemma repositoryInvariant_delete:
  assumes inv: "repositoryInvariant owner db"
    and k: "k \<notin> set bucketTags" "owner k = b"
  shows "repositoryInvariant owner (deleteInBucket k (tagOf b) db)"
proof -
  let ?db = "deleteInBucket k (tagOf b) db"
  note keys = keys_after_delete [OF k(1), of b db]
  have lists: "distinct (getBucketKeys ?db (tagOf b')) \<and>
      (\<forall>x\<in>set (getBucketKeys ?db (tagOf b')).
         ?db x \<noteq> None \<and> owner x = b' \<and> x \<notin> set bucketTags)" for b'
  proof -
    from inv have old: "distinct (getBucketKeys db (tagOf b'))"
      "\<forall>x\<in>set (getBucketKeys db (tagOf b')). db x \<noteq> None \<and> owner x = b' \<and> x \<notin> set bucketTags"
      by (simp_all add: repositoryInvariant_def)
    have kept: "?db x \<noteq> None"
      if "x \<in> set (getBucketKeys ?db (tagOf b'))" for x
    proof -
      from that have mem: "x \<in> set (getBucketKeys db (tagOf b'))"
        by (auto simp: keys split: if_splits dest: in_remove1D)
      with old(2) have x: "db x \<noteq> None" "owner x = b'" "x \<notin> set bucketTags"
        by auto
      have "x \<noteq> k"
      proof
        assume "x = k"
        with x(2) k(2) have "b' = b" by simp
        with that \<open>x = k\<close> old(1) show False
          by (simp add: keys)
      qed
      moreover from x(3) have "x \<noteq> tagOf b"
        using tagOf_in_tags [of b] by auto
      ultimately show ?thesis
        using x(1) by (simp add: deleteInBucket_other)
    qed
    have "distinct (getBucketKeys ?db (tagOf b'))"
      using old(1) by (auto simp: keys)
    moreover have "owner x = b' \<and> x \<notin> set bucketTags"
      if "x \<in> set (getBucketKeys ?db (tagOf b'))" for x
      using that old(2) by (auto simp: keys split: if_splits dest: in_remove1D)
    ultimately show ?thesis
      using kept by blast
  qed
  have "valuesAreMembers owner ?db"
    unfolding valuesAreMembers_def
  proof (intro allI impI)
    fix x
    assume present: "?db x \<noteq> None"
    then have x: "db x \<noteq> None" "x = k \<longrightarrow> k \<notin> set (getBucketKeys db (tagOf b))"
      using delete_entry_origin by blast+
    with inv have old: "x \<in> set bucketTags \<or> x = locationKey \<or>
        x \<in> set (getBucketKeys db (tagOf (owner x)))"
      by (simp add: repositoryInvariant_def valuesAreMembers_def)
    have "x \<in> set (getBucketKeys ?db (tagOf (owner x)))"
      if mem: "x \<in> set (getBucketKeys db (tagOf (owner x)))"
    proof (cases "owner x = b")
      case True
      with mem x(2) have "x \<noteq> k" by auto
      with mem True show ?thesis by (simp add: keys)
    next
      case False
      with mem show ?thesis by (simp add: keys)
    qed
    with old show "x \<in> set bucketTags \<or> x = locationKey \<or>
        x \<in> set (getBucketKeys ?db (tagOf (owner x)))"
      by blast
  qed
  with lists show ?thesis
    by (simp add: repositoryInvariant_def)
qed

lemma repositoryInvariant_saveLocation:
  assumes "repositoryInvariant owner db"
  shows "repositoryInvariant owner (saveLocation l db)"
proof -
  have keys: "getBucketKeys (saveLocation l db) (tagOf b) = getBucketKeys db (tagOf b)" for b
    using locationKey_not_tag [of b] by (simp add: saveLocation_def getBucketKeys_def)
  have kept: "saveLocation l db x \<noteq> None" if "db x \<noteq> None" for x
    using that by (simp add: saveLocation_def)
  have origin: "x = locationKey \<or> db x \<noteq> None" if "saveLocation l db x \<noteq> None" for x
    using that by (simp add: saveLocation_def split: if_splits)
  from assms have "valuesAreMembers owner (saveLocation l db)"
    unfolding repositoryInvariant_def valuesAreMembers_def keys
    using origin by blast
  then show ?thesis
    using assms kept unfolding repositoryInvariant_def keys by blast
qed

subsection \<open>The pairing invariant over sequences of operations\<close>

lemma repositoryInvariant_exec:
  assumes inv: "repositoryInvariant owner db" and wk: "wellKeyed owner H operation"
  shows "repositoryInvariant owner (snd (exec H operation db))"
proof (cases operation)
  case (SaveLocation l)
  with inv show ?thesis
    by (simp add: repositoryInvariant_saveLocation)
next
  case (UpsertAddress a p)
  with wk have "comma_free a" "a \<notin> set bucketTags" "owner a = AddressBucket"
    by (simp_all add: wellKeyed_def)
  from repositoryInvariant_upsert [OF inv this] UpsertAddress show ?thesis
    by (simp add: upsertAddress_def)
next
  case (DeleteAddress a)
  with wk have "a \<notin> set bucketTags" "owner a = AddressBucket"
    by (simp_all add: wellKeyed_def)
  from repositoryInvariant_delete [OF inv this] DeleteAddress show ?thesis
    by (simp add: deleteAddress_def)
next
  case (UpsertKeyPair pk p)
  with wk have "comma_free pk" "pk \<notin> set bucketTags" "owner pk = KeyPairBucket"
    by (simp_all add: wellKeyed_def)
  from repositoryInvariant_upsert [OF inv this] UpsertKeyPair show ?thesis
    by (simp add: upsertKeyPair_def)
next
  case (UpsertUtxo u)
  let ?k = "getUtxoKey (txid u) (vout u)"
  from UpsertUtxo wk have "comma_free ?k" "?k \<notin> set bucketTags" "owner ?k = UtxoBucket"
    by (simp_all add: wellKeyed_def)
  from repositoryInvariant_upsert [OF inv this] UpsertUtxo show ?thesis
    by (simp add: upsertUtxo_def)
next
  case (DeleteUtxo u)
  let ?k = "getUtxoKey (txid u) (vout u)"
  from DeleteUtxo wk have "?k \<notin> set bucketTags" "owner ?k = UtxoBucket"
    by (simp_all add: wellKeyed_def)
  from repositoryInvariant_delete [OF inv this] DeleteUtxo show ?thesis
    by (simp add: deleteUtxo_def)
next
  case (UnreserveUtxo tx n)
  let ?k = "getUtxoKey tx n"
  from UnreserveUtxo wk have "comma_free ?k" "?k \<notin> set bucketTags" "owner ?k = UtxoBucket"
    by (simp_all add: wellKeyed_def)
  from repositoryInvariant_upsert [OF inv this] inv UnreserveUtxo show ?thesis
    by (simp add: unreserveUtxo_def Let_def upsertValueInBucket_def split: sum.splits)
next
  case (CreateContract c)
  let ?k = "getId H c"
  from CreateContract wk have "comma_free ?k" "?k \<notin> set bucketTags" "owner ?k = ContractBucket"
    by (simp_all add: wellKeyed_def)
  from repositoryInvariant_upsert [OF inv this] CreateContract show ?thesis
    by (simp add: createContract_def upsertValueInBucket_def)
next
  case (UpdateContract c)
  let ?k = "getId H c"
  let ?db1 = "if state c = Accepted
      then deleteInBucket (temporaryContractId c) contractBucketTag db else db"
  from UpdateContract wk have k: "comma_free ?k" "?k \<notin> set bucketTags" "owner ?k = ContractBucket"
    by (simp_all add: wellKeyed_def)
  have "repositoryInvariant owner ?db1"
  proof (cases "state c = Accepted")
    case True
    with UpdateContract wk have "temporaryContractId c \<notin> set bucketTags"
      "owner (temporaryContractId c) = ContractBucket"
      by (simp_all add: wellKeyed_def)
    from repositoryInvariant_delete [OF inv this] True show ?thesis
      by simp
  next
    case False
    with inv show ?thesis by simp
  qed
  from repositoryInvariant_upsert [OF this k] UpdateContract show ?thesis
    by (simp add: updateContract_def upsertValueInBucket_def)
next
  case (DeleteContract i)
  with wk have "i \<notin> set bucketTags" "owner i = ContractBucket"
    by (simp_all add: wellKeyed_def)
  from repositoryInvariant_delete [OF inv this] DeleteContract show ?thesis
    by (simp add: deleteContract_def)
qed

lemma repositoryInvariant_run:
  "repositoryInvariant owner db \<Longrightarrow> list_all (wellKeyed owner H) ops \<Longrightarrow>
   repositoryInvariant owner (run H ops db)"
proof (induction ops arbitrary: db)
  case Nil
  then show ?case by (simp add: run_def)
next
  case (Cons operation ops)
  from Cons.prems have "repositoryInvariant owner (snd (exec H operation db))"
    by (simp add: repositoryInvariant_exec)
  with Cons.prems have "repositoryInvariant owner (run H ops (snd (exec H operation db)))"
    by (intro Cons.IH) simp_all
  then show ?case by (simp add: run_def)
qed

lemma repositoryInvariant_pairing:
  assumes "repositoryInvariant owner db"
  shows "pairingInvariant owner db"
proof -
  from assms have "list_all (\<lambda>k. db k \<noteq> None) (getBucketKeys db (tagOf b))" for b
    unfolding repositoryInvariant_def list_all_iff by blast
  then have "membersHaveValues db"
    unfolding membersHaveValues_def list_all_iff by blast
  with assms show ?thesis
    by (simp add: pairingInvariant_def repositoryInvariant_def)
qed

text \<open>
  Claim C2, as stated, for every sequence of operations from the empty store: every key of
  a membership list has a value entry. It fails after upserting an address that holds a
  comma (the list holds its pieces), after upserting an address that is the tag of its
  bucket (the value is read as the list), and after one key has been used in two buckets
  and deleted from one of them (the other bucket still lists it).
\<close>

theorem pairing_counterexample:
  "\<not> membersHaveValues (run sampleHost [UpsertAddress ''a,b'' ''p1''] Map.empty) \<and>
   \<not> membersHaveValues (run sampleHost [UpsertAddress ''addressBucket'' ''p1''] Map.empty) \<and>
   \<not> membersHaveValues
       (run sampleHost [UpsertAddress ''k'' ''p1'', UpsertKeyPair ''k'' ''p2'', DeleteAddress ''k'']
          Map.empty)"
  by (simp add: membersHaveValues_def buckets_def run_def upsertAddress_def upsertKeyPair_def
      deleteAddress_def upsertInBucket_def deleteInBucket_def getBucketKeys_def splice1_def
      addressBucketTag_def keyPairBucketTag_def utxoBucketTag_def contractBucketTag_def)

text \<open>
  Claim C2, amended. Run, from the empty store, any sequence of operations in which every
  key passed to the bucket index holds no comma, is not a bucket tag, and is used in one
  bucket only. Then every key of every membership list has a value entry, and every value
  entry, the bucket tag entries and the location entry apart, is listed in the membership
  list of the bucket its key is used in.
\<close>

theorem pairing_maintained:
  assumes "list_all (wellKeyed owner H) ops"
  shows "pairingInvariant owner (run H ops Map.empty)"
  using repositoryInvariant_empty assms
  by (intro repositoryInvariant_pairing repositoryInvariant_run)

theorem pairing_maintained_witness:
  "list_all
     (wellKeyed
        (\<lambda>k. if k = ''addr1'' then AddressBucket else if k = ''pub1'' then KeyPairBucket
             else if k = ''ab01'' then UtxoBucket else ContractBucket)
        sampleHost)
     [UpsertAddress ''addr1'' ''p1'',
      UpsertKeyPair ''pub1'' ''p2'',
      CreateContract \<lparr>state = Offered, temporaryContractId = ''tmp-1'', contractId = ''tmp-1''\<rparr>,
      UpdateContract \<lparr>state = Accepted, temporaryContractId = ''tmp-1'', contractId = ''final-1''\<rparr>,
      UpsertUtxo \<lparr>txid = ''ab'', vout = 1, reserved = True\<rparr>,
      UnreserveUtxo ''ab'' 1,
      DeleteAddress ''addr1'',
      SaveLocation ''here''] \<and>
   pairingInvariant
     (\<lambda>k. if k = ''addr1'' then AddressBucket else if k = ''pub1'' then KeyPairBucket
          else if k = ''ab01'' then UtxoBucket else ContractBucket)
     (run sampleHost
        [UpsertAddress ''addr1'' ''p1'',
         UpsertKeyPair ''pub1'' ''p2'',
         CreateContract \<lparr>state = Offered, temporaryContractId = ''tmp-1'', contractId = ''tmp-1''\<rparr>,
         UpdateContract \<lparr>state = Accepted, temporaryContractId = ''tmp-1'', contractId = ''final-1''\<rparr>,
         UpsertUtxo \<lparr>txid = ''ab'', vout = 1, reserved = True\<rparr>,
         UnreserveUtxo ''ab'' 1,
         DeleteAddress ''addr1'',
         SaveLocation ''here'']
        Map.empty)"
proof -
  let ?owner = "\<lambda>k. if k = ''addr1'' then AddressBucket else if k = ''pub1'' then KeyPairBucket
      else if k = ''ab01'' then UtxoBucket else ContractBucket"
  let ?ops = "[UpsertAddress ''addr1'' ''p1'',
      UpsertKeyPair ''pub1'' ''p2'',
      CreateContract \<lparr>state = Offered, temporaryContractId = ''tmp-1'', contractId = ''tmp-1''\<rparr>,
      UpdateContract \<lparr>state = Accepted, temporaryContractId = ''tmp-1'', contractId = ''final-1''\<rparr>,
      UpsertUtxo \<lparr>txid = ''ab'', vout = 1, reserved = True\<rparr>,
      UnreserveUtxo ''ab'' 1,
      DeleteAddress ''addr1'',
      SaveLocation ''here'']"
  have h: "list_all (wellKeyed ?owner sampleHost) ?ops"
    by (simp add: wellKeyed_def comma_free_def bucketTags_def buckets_def addressBucketTag_def
        utxoBucketTag_def contractBucketTag_def keyPairBucketTag_def sampleHost_def
        getUtxoKey_def padStart2_def hex_digit_def)
  from pairing_maintained [OF h] h show ?thesis
    by simp
qed

subsection \<open>The JSON codec: numbers\<close>















subsection \<open>The JSON codec: strings\<close>





lemma parse_string_QuoteJSONString:
  "QuoteJSONString s @ rest = CHR 0x22 # concat (map QuoteJSONChar s) @ CHR 0x22 # rest"
  by (simp add: QuoteJSONString_def)

subsection \<open>The JSON codec: property order\<close>




subsection \<open>The JSON codec: values\<close>










subsection \<open>The round trip of the codec\<close>




end
